theory Spec2Isabelle
  imports Complex_Main "HOL-Library.AList"
begin

section \<open>JavaScript built-ins the component relies on\<close>

text \<open>
  The component under study is \<^verbatim>\<open>FilteredAbstractComponent\<close> together with its
  subclass \<^verbatim>\<open>StatsComponent\<close>
  (\<^verbatim>\<open>src/app/shared/components/filtered-abstract.component.ts\<close>). Its code calls a
  handful of JavaScript built-ins; this section gives each of them as a function.
  Strings are ASCII strings.
\<close>

subsection \<open>Strings\<close>

text \<open>\<^verbatim>\<open>s.padStart(n, c)\<close> for a one-character pad string.\<close>

definition padStart :: "nat \<Rightarrow> char \<Rightarrow> string \<Rightarrow> string" where
  "padStart n c s = replicate (n - length s) c @ s"

text \<open>\<^verbatim>\<open>s.split(sep)\<close> for a one-character separator: the empty string gives one empty piece.\<close>

fun jsSplit :: "char \<Rightarrow> string \<Rightarrow> string list" where
  "jsSplit sep [] = [[]]"
| "jsSplit sep (c # cs) =
     (if c = sep then [] # jsSplit sep cs
      else (case jsSplit sep cs of [] \<Rightarrow> [[c]] | p # ps \<Rightarrow> (c # p) # ps))"

text \<open>\<^verbatim>\<open>xs.join(sep)\<close> on an array of strings.\<close>

fun jsJoin :: "string \<Rightarrow> string list \<Rightarrow> string" where
  "jsJoin sep [] = []"
| "jsJoin sep [x] = x"
| "jsJoin sep (x # y # ys) = x @ sep @ jsJoin sep (y # ys)"

fun startsWith :: "string \<Rightarrow> string \<Rightarrow> bool" where
  "startsWith s [] = True"
| "startsWith [] (p # ps) = False"
| "startsWith (c # cs) (p # ps) = (c = p \<and> startsWith cs ps)"

text \<open>\<^verbatim>\<open>s.includes(sub)\<close>.\<close>

fun jsIncludes :: "string \<Rightarrow> string \<Rightarrow> bool" where
  "jsIncludes [] sub = (sub = [])"
| "jsIncludes (c # cs) sub = (startsWith (c # cs) sub \<or> jsIncludes cs sub)"

subsection \<open>Decimal digits\<close>

definition isDigit :: "char \<Rightarrow> bool" where
  "isDigit c = (48 \<le> (of_char c :: nat) \<and> (of_char c :: nat) \<le> 57)"

definition digitVal :: "char \<Rightarrow> nat" where
  "digitVal c = of_char c - 48"

definition digitChar :: "nat \<Rightarrow> char" where
  "digitChar n = char_of (48 + n)"

definition digitsVal :: "string \<Rightarrow> nat" where
  "digitsVal s = foldl (\<lambda>a c. 10 * a + digitVal c) 0 s"

function showNat :: "nat \<Rightarrow> string" where
  "showNat n = (if n < 10 then [digitChar n] else showNat (n div 10) @ [digitChar (n mod 10)])"
  by pat_completeness auto
termination
  by (relation "measure id") auto

declare showNat.simps [simp del]

definition showInt :: "int \<Rightarrow> string" where
  "showInt i = (if i < 0 then CHR ''-'' # showNat (nat (- i)) else showNat (nat i))"

subsection \<open>Numbers\<close>

text \<open>
  A Number is NaN, an infinity or a finite value. Finite values are kept exact (as
  rationals): the rounding of a literal to the nearest double is not modelled.
\<close>

datatype jsnum = NaN | PosInf | NegInf | Fin rat

text \<open>\<^verbatim>\<open>x - 1\<close> on Numbers.\<close>

definition minusOne :: "jsnum \<Rightarrow> jsnum" where
  "minusOne x = (case x of Fin r \<Rightarrow> Fin (r - 1) | other \<Rightarrow> other)"

definition isWhite :: "char \<Rightarrow> bool" where
  "isWhite c = (let n = (of_char c :: nat) in (9 \<le> n \<and> n \<le> 13) \<or> n = 32)"

definition jsTrim :: "string \<Rightarrow> string" where
  "jsTrim s = rev (dropWhile isWhite (rev (dropWhile isWhite s)))"

definition radixDigit :: "char \<Rightarrow> nat option" where
  "radixDigit c =
     (let n = (of_char c :: nat) in
      if 48 \<le> n \<and> n \<le> 57 then Some (n - 48)
      else if 97 \<le> n \<and> n \<le> 102 then Some (n - 87)
      else if 65 \<le> n \<and> n \<le> 70 then Some (n - 55)
      else None)"

fun radixVal :: "nat \<Rightarrow> nat \<Rightarrow> string \<Rightarrow> nat option" where
  "radixVal b acc [] = Some acc"
| "radixVal b acc (c # cs) =
     (case radixDigit c of
        None \<Rightarrow> None
      | Some d \<Rightarrow> if d < b then radixVal b (b * acc + d) cs else None)"

definition radixLiteral :: "nat \<Rightarrow> string \<Rightarrow> jsnum" where
  "radixLiteral b s =
     (if s = [] then NaN
      else (case radixVal b 0 s of None \<Rightarrow> NaN | Some n \<Rightarrow> Fin (of_nat n)))"

definition allDigits :: "string \<Rightarrow> bool" where
  "allDigits s = (s \<noteq> [] \<and> list_all isDigit s)"

text \<open>The exponent part of a decimal literal: absent, or \<^verbatim>\<open>e\<close>/\<^verbatim>\<open>E\<close>, a sign, digits.\<close>

definition exponentPart :: "string \<Rightarrow> int option" where
  "exponentPart s =
     (case s of
        [] \<Rightarrow> Some 0
      | c # r \<Rightarrow>
          if c = CHR ''e'' \<or> c = CHR ''E'' then
            (case r of
               [] \<Rightarrow> None
             | d # r' \<Rightarrow>
                 if d = CHR ''+'' then (if allDigits r' then Some (int (digitsVal r')) else None)
                 else if d = CHR ''-'' then (if allDigits r' then Some (- int (digitsVal r')) else None)
                 else (if allDigits r then Some (int (digitsVal r)) else None))
          else None)"

definition scale10 :: "rat \<Rightarrow> int \<Rightarrow> rat" where
  "scale10 v e = (if 0 \<le> e then v * 10 ^ nat e else v / 10 ^ nat (- e))"

text \<open>An unsigned decimal literal: \<^verbatim>\<open>12\<close>, \<^verbatim>\<open>12.\<close>, \<^verbatim>\<open>12.5\<close>, \<^verbatim>\<open>.5\<close>, each with an optional exponent.\<close>

definition unsignedDecimal :: "string \<Rightarrow> rat option" where
  "unsignedDecimal s =
     (let ip = takeWhile isDigit s; r1 = dropWhile isDigit s in
      if r1 \<noteq> [] \<and> hd r1 = CHR ''.'' then
        (let fp = takeWhile isDigit (tl r1); r2 = dropWhile isDigit (tl r1) in
         if ip = [] \<and> fp = [] then None
         else map_option
                (scale10 (of_nat (digitsVal ip) + of_nat (digitsVal fp) / 10 ^ length fp))
                (exponentPart r2))
      else if ip = [] then None
      else map_option (scale10 (of_nat (digitsVal ip))) (exponentPart r1))"

text \<open>
  \<^verbatim>\<open>Number(s)\<close> on a string: surrounding white space is dropped, the empty string is 0,
  then a hexadecimal, octal or binary literal, or a signed decimal literal or
  \<^verbatim>\<open>Infinity\<close>; anything else is NaN.
\<close>

definition jsNumber :: "string \<Rightarrow> jsnum" where
  "jsNumber s =
     (let t = jsTrim s in
      if t = [] then Fin 0
      else if startsWith t ''0x'' \<or> startsWith t ''0X'' then radixLiteral 16 (drop 2 t)
      else if startsWith t ''0o'' \<or> startsWith t ''0O'' then radixLiteral 8 (drop 2 t)
      else if startsWith t ''0b'' \<or> startsWith t ''0B'' then radixLiteral 2 (drop 2 t)
      else
        (let neg = (hd t = CHR ''-'');
             body = (if hd t = CHR ''+'' \<or> hd t = CHR ''-'' then tl t else t) in
         if body = ''Infinity'' then (if neg then NegInf else PosInf)
         else (case unsignedDecimal body of
                 None \<Rightarrow> NaN
               | Some v \<Rightarrow> Fin (if neg then - v else v))))"

subsection \<open>Dates\<close>

text \<open>
  A \<^verbatim>\<open>Date\<close> is read by the component through its local-time getters only, so it is
  modelled by its local calendar reading: the year, the month (0 to 11), the day of the
  month and the milliseconds since local midnight; or it is the Invalid Date. The time
  zone is abstracted away: \<^verbatim>\<open>new Date(y, m, d)\<close> is local midnight of the calendar day it
  denotes.
\<close>

datatype jsdate = InvalidDate | LocalDate int nat nat int

text \<open>The getters return an integer, or NaN (\<open>None\<close>) on the Invalid Date.\<close>

definition getFullYear :: "jsdate \<Rightarrow> int option" where
  "getFullYear d = (case d of InvalidDate \<Rightarrow> None | LocalDate y m dd t \<Rightarrow> Some y)"

definition getMonth :: "jsdate \<Rightarrow> int option" where
  "getMonth d = (case d of InvalidDate \<Rightarrow> None | LocalDate y m dd t \<Rightarrow> Some (int m))"

definition getDate :: "jsdate \<Rightarrow> int option" where
  "getDate d = (case d of InvalidDate \<Rightarrow> None | LocalDate y m dd t \<Rightarrow> Some (int dd))"

text \<open>\<^verbatim>\<open>String(n)\<close> and \<^verbatim>\<open>`${n}`\<close> for such a getter result.\<close>

definition intToString :: "int option \<Rightarrow> string" where
  "intToString n = (case n of None \<Rightarrow> ''NaN'' | Some i \<Rightarrow> showInt i)"

definition leapYear :: "int \<Rightarrow> bool" where
  "leapYear y = (if y mod 100 = 0 then y mod 400 = 0 else y mod 4 = 0)"

definition daysInMonth :: "int \<Rightarrow> nat \<Rightarrow> int" where
  "daysInMonth y m =
     (if m = 1 then (if leapYear y then 29 else 28)
      else if m = 3 \<or> m = 5 \<or> m = 8 \<or> m = 10 then 30
      else 31)"

text \<open>
  The calendar day that lies \<open>k\<close> days after the first of month \<open>m\<close> of year \<open>y\<close>
  (\<open>k\<close> may be negative): the overflow rule of the \<^verbatim>\<open>Date\<close> constructor.
\<close>

function normalize :: "int \<Rightarrow> nat \<Rightarrow> int \<Rightarrow> int \<times> nat \<times> nat" where
  "normalize y m k =
     (if k < 0 then
        (if m = 0 then normalize (y - 1) 11 (k + daysInMonth (y - 1) 11)
         else normalize y (m - 1) (k + daysInMonth y (m - 1)))
      else if daysInMonth y m \<le> k then
        (if 11 \<le> m then normalize (y + 1) 0 (k - daysInMonth y m)
         else normalize y (m + 1) (k - daysInMonth y m))
      else (y, m, nat k + 1))"
  by pat_completeness auto
termination
  by (relation "measure (\<lambda>(y, m, k). nat (if k < 0 then 32 - k else k))")
     (auto simp: daysInMonth_def split: if_splits)

declare normalize.simps [simp del]

text \<open>Truncation towards zero (\<^verbatim>\<open>ToIntegerOrInfinity\<close> on a finite value).\<close>

definition toInteger :: "rat \<Rightarrow> int" where
  "toInteger r = (if r < 0 then \<lceil>r\<rceil> else \<lfloor>r\<rfloor>)"

text \<open>
  A time value is kept only within 100,000,000 days of the epoch: from 20 April -271821
  to 13 September 275760 (within a day of either bound the time zone decides, which is
  not modelled).
\<close>

definition inTimeRange :: "int \<Rightarrow> nat \<Rightarrow> nat \<Rightarrow> bool" where
  "inTimeRange y m d =
     ((- 271821 < y \<or> (y = - 271821 \<and> (3 < m \<or> (m = 3 \<and> 20 \<le> d)))) \<and>
      (y < 275760 \<or> (y = 275760 \<and> (m < 8 \<or> (m = 8 \<and> d \<le> 13)))))"

text \<open>
  \<^verbatim>\<open>new Date(year, month, date)\<close>: a NaN or infinite argument gives the Invalid Date;
  the arguments are truncated; a year from 0 to 99 means 1900 + year; months and days
  out of range carry over.
\<close>

definition newDate :: "jsnum \<Rightarrow> jsnum \<Rightarrow> jsnum \<Rightarrow> jsdate" where
  "newDate year month date =
     (case year of
        Fin y \<Rightarrow>
          (case month of
             Fin m \<Rightarrow>
               (case date of
                  Fin dt \<Rightarrow>
                    (let yi = toInteger y;
                         yr = (if 0 \<le> yi \<and> yi \<le> 99 then 1900 + yi else yi);
                         mi = toInteger m;
                         di = toInteger dt;
                         ym = yr + mi div 12;
                         mn = nat (mi mod 12) in
                     (case normalize ym mn (di - 1) of
                        (y', m', d') \<Rightarrow>
                          if inTimeRange y' m' d' then LocalDate y' m' d' 0
                          else InvalidDate))
                | _ \<Rightarrow> InvalidDate)
           | _ \<Rightarrow> InvalidDate)
      | _ \<Rightarrow> InvalidDate)"

section \<open>Values of filter controls\<close>

text \<open>
  What a filter control holds: nothing (\<^verbatim>\<open>null\<close> or \<^verbatim>\<open>undefined\<close>), a date, an array
  of strings, a string, an integer-valued number (of magnitude below \<open>10\<^sup>2\<^sup>1\<close>, where
  \<^verbatim>\<open>String\<close> prints plain digits) or a boolean.
\<close>

datatype jsvalue =
    Undefined
  | Null
  | DateV jsdate
  | ArrV "string list"
  | StrV string
  | NumV int
  | BoolV bool

section \<open>The codec\<close>

text \<open>\<^verbatim>\<open>FilteredAbstractComponent.serializeUrlParam\<close>; \<open>None\<close> is its \<^verbatim>\<open>null\<close> result.\<close>

definition serializeUrlParam :: "string \<Rightarrow> jsvalue \<Rightarrow> string option" where
  "serializeUrlParam key val =
     (case val of
        Undefined \<Rightarrow> None
      | Null \<Rightarrow> None
      | DateV d \<Rightarrow>
          (let year = getFullYear d;
               month = padStart 2 (CHR ''0'') (intToString (map_option (\<lambda>m. m + 1) (getMonth d)));
               day = padStart 2 (CHR ''0'') (intToString (getDate d)) in
           Some (intToString year @ ''-'' @ month @ ''-'' @ day))
      | ArrV xs \<Rightarrow> Some (jsJoin '','' xs)
      | StrV s \<Rightarrow> Some s
      | NumV n \<Rightarrow> Some (showInt n)
      | BoolV b \<Rightarrow> Some (if b then ''true'' else ''false''))"

text \<open>
  The array destructuring \<^verbatim>\<open>[year, month, day] = parts\<close>: a missing element is
  \<^verbatim>\<open>undefined\<close>, which every later use converts to NaN.
\<close>

definition element :: "jsnum list \<Rightarrow> nat \<Rightarrow> jsnum" where
  "element parts i = (if i < length parts then parts ! i else NaN)"

text \<open>\<^verbatim>\<open>StatsComponent.deserializeUrlParam\<close>.\<close>

definition Stats_deserializeUrlParam :: "string \<Rightarrow> string \<Rightarrow> jsvalue" where
  "Stats_deserializeUrlParam key val =
     (if jsIncludes key ''date'' \<or> jsIncludes key ''Date'' then
        (let parts = map jsNumber (jsSplit (CHR ''-'') val);
             year = element parts 0;
             month = element parts 1;
             day = element parts 2 in
         DateV (newDate year (minusOne month) day))
      else StrV val)"

text \<open>\<^verbatim>\<open>StatsComponent.getUrlParamKey\<close>: the direct mapping.\<close>

definition Stats_getUrlParamKey :: "string \<Rightarrow> string" where
  "Stats_getUrlParamKey formControlName = formControlName"

text \<open>
  Date-only equality: the same local year, month and day; the time of day is ignored.
\<close>

fun sameDay :: "jsdate \<Rightarrow> jsdate \<Rightarrow> bool" where
  "sameDay (LocalDate y m d t) (LocalDate y' m' d' t') = (y = y' \<and> m = m' \<and> d = d')"
| "sameDay _ _ = False"

text \<open>A date of the calendar, at any time of its day, inside the range of time values.\<close>

definition validDate :: "jsdate \<Rightarrow> bool" where
  "validDate d =
     (case d of
        InvalidDate \<Rightarrow> False
      | LocalDate y m dd t \<Rightarrow>
          m < 12 \<and> 1 \<le> dd \<and> int dd \<le> daysInMonth y m \<and> 0 \<le> t \<and> t < 86400000 \<and>
          inTimeRange y m dd)"

section \<open>The filter form\<close>

text \<open>
  \<^verbatim>\<open>filterFormGroup\<close> is a flat Angular \<^verbatim>\<open>FormGroup\<close>: its controls in the order of
  their creation, each with a value and an enabled flag. A JavaScript object is an
  association list in the order \<^verbatim>\<open>Object.keys\<close> lists it; assigning a property is
  \<^const>\<open>AList.update\<close> (a key that exists keeps its place, a new one is appended).
  JavaScript lists keys that are array indices first; control names and URL keys are
  taken not to be such, and no result below depends on the order of keys beyond the order
  in which warnings are printed.
\<close>

record control =
  cvalue :: jsvalue
  cenabled :: bool

type_synonym form_group = "(string \<times> control) list"

text \<open>
  \<^verbatim>\<open>filterFormGroup.value\<close>: the values of the enabled controls; of all controls when
  every control is disabled (the group itself is then disabled).
\<close>

definition groupValue :: "form_group \<Rightarrow> (string \<times> jsvalue) list" where
  "groupValue fg =
     (let groupDisabled = list_all (\<lambda>(name, c). \<not> cenabled c) fg in
      map (\<lambda>(name, c). (name, cvalue c))
        (filter (\<lambda>(name, c). cenabled c \<or> groupDisabled) fg))"

text \<open>
  \<^verbatim>\<open>filterFormGroup.get(path)\<close>: the path is split at dots, and a flat group has
  nothing below its first level.
\<close>

definition formGet :: "form_group \<Rightarrow> string \<Rightarrow> control option" where
  "formGet fg path = (if CHR ''.'' \<in> set path then None else map_of fg path)"

text \<open>
  \<^verbatim>\<open>filterFormGroup.patchValue(v, { emitEvent: false })\<close>: every control named in \<open>v\<close>
  takes its value, enabled or not; no \<^verbatim>\<open>valueChanges\<close> event is emitted.
\<close>

definition patchValue :: "form_group \<Rightarrow> (string \<times> jsvalue) list \<Rightarrow> form_group" where
  "patchValue fg v =
     map (\<lambda>(name, c). (name, (case map_of v name of None \<Rightarrow> c | Some x \<Rightarrow> c\<lparr>cvalue := x\<rparr>))) fg"

text \<open>\<^verbatim>\<open>filterFormGroup.get(name).setValue(x)\<close>, as user input does.\<close>

definition setValue :: "string \<Rightarrow> jsvalue \<Rightarrow> form_group \<Rightarrow> form_group" where
  "setValue name x fg = patchValue fg [(name, x)]"

section \<open>State to wire: \<^verbatim>\<open>updateUrl\<close>\<close>

text \<open>
  The \<^verbatim>\<open>forEach\<close> of \<^verbatim>\<open>updateUrl\<close> over the keys of the form value, building
  \<^verbatim>\<open>queryParams\<close>. The abstract method \<^verbatim>\<open>getUrlParamKey\<close> is a parameter.
\<close>

definition updateUrl_step ::
  "(string \<Rightarrow> string) \<Rightarrow> (string \<times> string) list \<Rightarrow> string \<times> jsvalue \<Rightarrow> (string \<times> string) list"
where
  "updateUrl_step getUrlParamKey queryParams kv =
     (case kv of (key, val) \<Rightarrow>
        (let urlKey = getUrlParamKey key;
             serialized = serializeUrlParam urlKey val in
         (case serialized of
            None \<Rightarrow> queryParams
          | Some s \<Rightarrow> AList.update urlKey s queryParams)))"

definition updateUrl_queryParams ::
  "(string \<Rightarrow> string) \<Rightarrow> form_group \<Rightarrow> (string \<times> string) list"
where
  "updateUrl_queryParams getUrlParamKey fg =
     foldl (updateUrl_step getUrlParamKey) [] (groupValue fg)"

datatype queryParamsHandling = Merge | Preserve | Replace

text \<open>One call of \<^verbatim>\<open>router.navigate([], extras)\<close>: a write to the wire.\<close>

record navigation =
  queryParams :: "(string \<times> string) list"
  handling :: queryParamsHandling
  replaceUrl :: bool

text \<open>
  What the router makes of the current query parameters on a navigation: with
  \<^verbatim>\<open>'replace'\<close> the new record stands alone.
\<close>

definition routerNavigate :: "navigation \<Rightarrow> (string \<times> string) list \<Rightarrow> (string \<times> string) list" where
  "routerNavigate nav current =
     (case handling nav of
        Replace \<Rightarrow> queryParams nav
      | Preserve \<Rightarrow> current
      | Merge \<Rightarrow> foldl (\<lambda>q (k, v). AList.update k v q) current (queryParams nav))"

section \<open>Wire to state: \<^verbatim>\<open>updateFormFromUrl\<close>\<close>

text \<open>A thrown value, and the two \<^verbatim>\<open>console.warn\<close> messages of \<^verbatim>\<open>updateFormFromUrl\<close>.\<close>

datatype exn = Exn string

datatype diagnostic =
    NoFormControl string "string option"
  | FailedToDeserialize string exn

text \<open>
  \<^verbatim>\<open>getFormControlKey\<close>: the first control whose URL key is \<open>urlKey\<close>;
  \<^verbatim>\<open>find(...) || null\<close> turns a control named by the empty string into \<^verbatim>\<open>null\<close>.
\<close>

definition getFormControlKey :: "(string \<Rightarrow> string) \<Rightarrow> form_group \<Rightarrow> string \<Rightarrow> string option" where
  "getFormControlKey getUrlParamKey fg urlKey =
     (case find (\<lambda>key. getUrlParamKey key = urlKey) (map fst fg) of
        None \<Rightarrow> None
      | Some key \<Rightarrow> if key = [] then None else Some key)"

text \<open>The locals of \<^verbatim>\<open>updateFormFromUrl\<close>, and the warnings it has printed.\<close>

record reconcile =
  formValue :: "(string \<times> jsvalue) list"
  hasChanges :: bool
  warned :: "diagnostic list"

text \<open>
  The \<^verbatim>\<open>try\<close> block, for one entry. The abstract method \<^verbatim>\<open>deserializeUrlParam\<close> is a
  parameter that returns a value or throws (\<open>Inl\<close>).
\<close>

definition tryBlock ::
  "(string \<Rightarrow> string) \<Rightarrow> (string \<Rightarrow> string \<Rightarrow> exn + jsvalue) \<Rightarrow> form_group \<Rightarrow>
   string \<Rightarrow> string \<Rightarrow> reconcile \<Rightarrow> exn + reconcile"
where
  "tryBlock getUrlParamKey deserialize fg urlKey val st =
     (case getFormControlKey getUrlParamKey fg urlKey of
        None \<Rightarrow> Inr (st\<lparr>warned := warned st @ [NoFormControl urlKey None]\<rparr>)
      | Some formKey \<Rightarrow>
          (case formGet fg formKey of
             None \<Rightarrow> Inr (st\<lparr>warned := warned st @ [NoFormControl urlKey (Some formKey)]\<rparr>)
           | Some c \<Rightarrow>
               (case deserialize urlKey val of
                  Inl error \<Rightarrow> Inl error
                | Inr deserializedValue \<Rightarrow>
                    Inr (st\<lparr>formValue := AList.update formKey deserializedValue (formValue st),
                            hasChanges := True\<rparr>))))"

text \<open>The callback of the \<^verbatim>\<open>forEach\<close>: a falsy (empty) value is passed over; \<^verbatim>\<open>catch\<close> warns.\<close>

definition entryStep ::
  "(string \<Rightarrow> string) \<Rightarrow> (string \<Rightarrow> string \<Rightarrow> exn + jsvalue) \<Rightarrow> form_group \<Rightarrow>
   string \<times> string \<Rightarrow> reconcile \<Rightarrow> exn + reconcile"
where
  "entryStep getUrlParamKey deserialize fg kv st =
     (case kv of (urlKey, val) \<Rightarrow>
        if val \<noteq> [] then
          (case tryBlock getUrlParamKey deserialize fg urlKey val st of
             Inl error \<Rightarrow> Inr (st\<lparr>warned := warned st @ [FailedToDeserialize urlKey error]\<rparr>)
           | Inr st' \<Rightarrow> Inr st')
        else Inr st)"

text \<open>\<^verbatim>\<open>forEach\<close> with a callback that may throw: the first exception ends the loop.\<close>

fun forEach :: "('a \<Rightarrow> 's \<Rightarrow> exn + 's) \<Rightarrow> 'a list \<Rightarrow> 's \<Rightarrow> exn + 's" where
  "forEach f [] s = Inr s"
| "forEach f (x # xs) s = (case f x s of Inl e \<Rightarrow> Inl e | Inr s' \<Rightarrow> forEach f xs s')"

text \<open>
  \<^verbatim>\<open>updateFormFromUrl(params)\<close>: the form after the call, with the locals and warnings of
  the call; \<open>Inl\<close> if the call throws.
\<close>

definition updateFormFromUrl ::
  "(string \<Rightarrow> string) \<Rightarrow> (string \<Rightarrow> string \<Rightarrow> exn + jsvalue) \<Rightarrow> form_group \<Rightarrow>
   (string \<times> string) list \<Rightarrow> exn + (form_group \<times> reconcile)"
where
  "updateFormFromUrl getUrlParamKey deserialize fg params =
     (case forEach (entryStep getUrlParamKey deserialize fg) params
             \<lparr>formValue = [], hasChanges = False, warned = []\<rparr> of
        Inl e \<Rightarrow> Inl e
      | Inr st \<Rightarrow> Inr (if hasChanges st then patchValue fg (formValue st) else fg, st))"

text \<open>\<^verbatim>\<open>StatsComponent.deserializeUrlParam\<close> as the abstract method's implementation: it has no \<^verbatim>\<open>throw\<close>.\<close>

definition Stats_deserialize :: "string \<Rightarrow> string \<Rightarrow> exn + jsvalue" where
  "Stats_deserialize key val = Inr (Stats_deserializeUrlParam key val)"

section \<open>The component\<close>

text \<open>
  The observable \<^verbatim>\<open>loadData()\<close> returns is taken by its outcome: it emits a value and
  completes (as the repository's own \<^verbatim>\<open>of([])\<close> does), or it errors.
\<close>

datatype 'd outcome = Emit 'd | Fail exn

text \<open>
  The state of a component after \<^verbatim>\<open>ngOnInit\<close>: the form, the two signals, the state of
  the two subscriptions (the counter of \<^verbatim>\<open>retry({ count: 3 })\<close> and whether the
  \<^verbatim>\<open>dataUpdateRequested$\<close> pipeline is still subscribed; the time at which
  \<^verbatim>\<open>debounceTime(300)\<close> is due to emit), and what the component has done to its
  collaborators so far: the calls of \<^verbatim>\<open>router.navigate\<close>, the warnings, the filter value
  at each \<^verbatim>\<open>dataUpdateRequested$.next()\<close> and at each call of \<^verbatim>\<open>loadData()\<close>, and the
  errors no handler took. Time is in milliseconds.
\<close>

record 'd component =
  filterFormGroup :: form_group
  isLoading :: bool
  data :: "'d option"
  retrySoFar :: nat
  fetchSubscribed :: bool
  debounceDue :: "nat option"
  navigated :: "navigation list"
  consoleWarned :: "diagnostic list"
  requested :: "(string \<times> jsvalue) list list"
  loaded :: "(string \<times> jsvalue) list list"
  unhandledErrors :: "exn list"

text \<open>\<^verbatim>\<open>updateUrl()\<close>: the record is built and handed to \<^verbatim>\<open>router.navigate\<close>, once.\<close>

definition updateUrl :: "(string \<Rightarrow> string) \<Rightarrow> 'd component \<Rightarrow> 'd component" where
  "updateUrl getUrlParamKey c =
     c\<lparr>navigated := navigated c @
          [\<lparr>queryParams = updateUrl_queryParams getUrlParamKey (filterFormGroup c),
            handling = Replace,
            replaceUrl = True\<rparr>]\<rparr>"

text \<open>
  \<^verbatim>\<open>dataUpdateRequested$.next()\<close> through the pipeline of \<^verbatim>\<open>ngOnInit\<close>:
  \<^verbatim>\<open>tap\<close>, \<^verbatim>\<open>switchMap(() => this.loadData())\<close>, \<^verbatim>\<open>catchError\<close>, \<^verbatim>\<open>tap\<close>,
  \<^verbatim>\<open>retry({ count: 3 })\<close>, \<^verbatim>\<open>subscribe\<close>. The source of the pipeline is a
  \<^verbatim>\<open>Subject\<close>: when \<^verbatim>\<open>retry\<close> subscribes again after an error, the emission that
  failed is not replayed, and \<^verbatim>\<open>loadData()\<close> runs again only on the next emission.
  \<^verbatim>\<open>retry\<close> subscribes again while its counter, read before it is incremented, is below
  3; otherwise the error goes to the subscriber, which has no error handler, and the
  pipeline is over.
\<close>

definition dataUpdateRequested_next ::
  "((string \<times> jsvalue) list \<Rightarrow> 'd outcome) \<Rightarrow> 'd component \<Rightarrow> 'd component"
where
  "dataUpdateRequested_next loadData c0 =
     (let snapshot = groupValue (filterFormGroup c0);
          c = c0\<lparr>requested := requested c0 @ [snapshot]\<rparr> in
      if \<not> fetchSubscribed c then c
      else
        (let c1 = c\<lparr>isLoading := True, loaded := loaded c @ [snapshot]\<rparr> in
         (case loadData snapshot of
            Emit d \<Rightarrow> c1\<lparr>isLoading := False, data := Some d\<rparr>
          | Fail error \<Rightarrow>
              (let c2 = c1\<lparr>isLoading := False, retrySoFar := Suc (retrySoFar c1)\<rparr> in
               if retrySoFar c1 < 3 then c2
               else c2\<lparr>fetchSubscribed := False,
                       unhandledErrors := unhandledErrors c2 @ [error]\<rparr>))))"

text \<open>
  The subscriber of the debounced \<^verbatim>\<open>valueChanges\<close>: \<^verbatim>\<open>updateUrl()\<close>, then a data
  request if the form is valid. \<^verbatim>\<open>filterFormGroup.valid\<close> is a parameter.
\<close>

definition valueChanges_subscriber ::
  "(string \<Rightarrow> string) \<Rightarrow> ((string \<times> jsvalue) list \<Rightarrow> 'd outcome) \<Rightarrow> (form_group \<Rightarrow> bool) \<Rightarrow>
   'd component \<Rightarrow> 'd component"
where
  "valueChanges_subscriber getUrlParamKey loadData valid c =
     (let c1 = updateUrl getUrlParamKey c in
      if valid (filterFormGroup c1) then dataUpdateRequested_next loadData c1 else c1)"

text \<open>
  \<^verbatim>\<open>debounceTime(300)\<close>: every \<^verbatim>\<open>valueChanges\<close> emission sets the time due to 300 ms
  later (\<^verbatim>\<open>distinctUntilChanged()\<close> before it lets every emission through, each being a
  new object); when the clock reaches the time due, the subscriber runs.
\<close>

definition valueChanges_next :: "nat \<Rightarrow> 'd component \<Rightarrow> 'd component" where
  "valueChanges_next now c = c\<lparr>debounceDue := Some (now + 300)\<rparr>"

definition elapse ::
  "(string \<Rightarrow> string) \<Rightarrow> ((string \<times> jsvalue) list \<Rightarrow> 'd outcome) \<Rightarrow> (form_group \<Rightarrow> bool) \<Rightarrow>
   nat \<Rightarrow> 'd component \<Rightarrow> 'd component"
where
  "elapse getUrlParamKey loadData valid now c =
     (case debounceDue c of
        None \<Rightarrow> c
      | Some due \<Rightarrow>
          if due \<le> now
          then valueChanges_subscriber getUrlParamKey loadData valid (c\<lparr>debounceDue := None\<rparr>)
          else c)"

text \<open>
  A state-mutation event: at time \<open>now\<close> the form is changed by \<open>mutate\<close> (user
  input, \<^verbatim>\<open>setValue\<close>, enabling a control) and emits \<^verbatim>\<open>valueChanges\<close>. A timer that
  was due by then has run first.
\<close>

definition stateChange ::
  "(string \<Rightarrow> string) \<Rightarrow> ((string \<times> jsvalue) list \<Rightarrow> 'd outcome) \<Rightarrow> (form_group \<Rightarrow> bool) \<Rightarrow>
   'd component \<Rightarrow> nat \<times> (form_group \<Rightarrow> form_group) \<Rightarrow> 'd component"
where
  "stateChange getUrlParamKey loadData valid c ev =
     (case ev of (now, mutate) \<Rightarrow>
        (let c1 = elapse getUrlParamKey loadData valid now c in
         valueChanges_next now (c1\<lparr>filterFormGroup := mutate (filterFormGroup c1)\<rparr>)))"

text \<open>The pending timer, if any, runs: time passes with no further event.\<close>

definition settle ::
  "(string \<Rightarrow> string) \<Rightarrow> ((string \<times> jsvalue) list \<Rightarrow> 'd outcome) \<Rightarrow> (form_group \<Rightarrow> bool) \<Rightarrow>
   'd component \<Rightarrow> 'd component"
where
  "settle getUrlParamKey loadData valid c =
     (case debounceDue c of
        None \<Rightarrow> c
      | Some due \<Rightarrow> elapse getUrlParamKey loadData valid due c)"

text \<open>
  Successive events of a burst: each comes no earlier than the one before it and before
  the 300 ms that one started have passed.
\<close>

fun withinWindow :: "nat \<Rightarrow> (nat \<times> (form_group \<Rightarrow> form_group)) list \<Rightarrow> bool" where
  "withinWindow prev [] = True"
| "withinWindow prev ((now, mutate) # evs) =
     (prev \<le> now \<and> now < prev + 300 \<and> withinWindow now evs)"

text \<open>The subscriber of \<^verbatim>\<open>route.queryParams\<close>: \<^verbatim>\<open>updateFormFromUrl(params)\<close>.\<close>

definition queryParams_subscriber ::
  "(string \<Rightarrow> string) \<Rightarrow> (string \<Rightarrow> string \<Rightarrow> exn + jsvalue) \<Rightarrow> (string \<times> string) list \<Rightarrow>
   'd component \<Rightarrow> exn + 'd component"
where
  "queryParams_subscriber getUrlParamKey deserialize params c =
     (case updateFormFromUrl getUrlParamKey deserialize (filterFormGroup c) params of
        Inl e \<Rightarrow> Inl e
      | Inr (fg, st) \<Rightarrow>
          Inr (c\<lparr>filterFormGroup := fg, consoleWarned := consoleWarned c @ warned st\<rparr>))"

text \<open>
  \<^verbatim>\<open>ngOnInit()\<close>, with the query parameters of the route at that moment:
  \<^verbatim>\<open>createFilters()\<close>, \<^verbatim>\<open>loadFromUrl()\<close>, the subscriptions
  (\<^verbatim>\<open>route.queryParams\<close> hands its current value to a new subscriber at once), and the
  first data request.
\<close>

definition ngOnInit ::
  "(string \<Rightarrow> string) \<Rightarrow> (string \<Rightarrow> string \<Rightarrow> exn + jsvalue) \<Rightarrow>
   ((string \<times> jsvalue) list \<Rightarrow> 'd outcome) \<Rightarrow> form_group \<Rightarrow> (string \<times> string) list \<Rightarrow>
   exn + 'd component"
where
  "ngOnInit getUrlParamKey deserialize loadData createFilters params =
     (let c0 = \<lparr>filterFormGroup = createFilters, isLoading = False, data = None,
                retrySoFar = 0, fetchSubscribed = False, debounceDue = None,
                navigated = [], consoleWarned = [], requested = [], loaded = [],
                unhandledErrors = []\<rparr> in
      (case queryParams_subscriber getUrlParamKey deserialize params c0 of
         Inl e \<Rightarrow> Inl e
       | Inr c1 \<Rightarrow>
           (case queryParams_subscriber getUrlParamKey deserialize params
                   (c1\<lparr>fetchSubscribed := True\<rparr>) of
              Inl e \<Rightarrow> Inl e
            | Inr c2 \<Rightarrow> Inr (dataUpdateRequested_next loadData c2))))"

subsection \<open>\<^verbatim>\<open>StatsComponent\<close>\<close>

definition num :: "int option \<Rightarrow> jsnum" where
  "num n = (case n of None \<Rightarrow> NaN | Some i \<Rightarrow> Fin (of_int i))"

text \<open>
  \<^verbatim>\<open>StatsComponent.createFilters()\<close>, \<open>today\<close> being \<^verbatim>\<open>new Date()\<close>: the date fourteen
  days back, today with its time of day, and the two disabled comparison dates.
\<close>

definition Stats_createFilters :: "jsdate \<Rightarrow> form_group" where
  "Stats_createFilters today =
     [(''dateFrom'',
         \<lparr>cvalue = DateV (newDate (num (getFullYear today)) (num (getMonth today))
                             (num (map_option (\<lambda>d. d - 14) (getDate today)))),
          cenabled = True\<rparr>),
      (''dateTo'', \<lparr>cvalue = DateV today, cenabled = True\<rparr>),
      (''compareDateFrom'', \<lparr>cvalue = Null, cenabled = False\<rparr>),
      (''compareDateTo'', \<lparr>cvalue = Null, cenabled = False\<rparr>)]"

text \<open>\<^verbatim>\<open>StatsComponent.loadData()\<close>: \<^verbatim>\<open>of([])\<close>.\<close>

definition Stats_loadData :: "(string \<times> jsvalue) list \<Rightarrow> unit list outcome" where
  "Stats_loadData snapshot = Emit []"

text \<open>
  \<^verbatim>\<open>Validators.required\<close>, and the validity of the Stats form: some control is enabled
  and every enabled control passes.
\<close>

definition required :: "jsvalue \<Rightarrow> bool" where
  "required v =
     (case v of
        Undefined \<Rightarrow> False
      | Null \<Rightarrow> False
      | StrV s \<Rightarrow> s \<noteq> []
      | ArrV xs \<Rightarrow> xs \<noteq> []
      | _ \<Rightarrow> True)"

definition Stats_valid :: "form_group \<Rightarrow> bool" where
  "Stats_valid fg =
     (list_ex (\<lambda>(name, c). cenabled c) fg \<and>
      list_all (\<lambda>(name, c). if cenabled c then required (cvalue c) else True) fg)"

section \<open>Notions the results are stated with\<close>

text \<open>
  The patch and the warnings one expects of \<^verbatim>\<open>updateFormFromUrl\<close> on a record whose
  entries all resolve to a control: each entry that deserializes gives an assignment to
  its control, each entry whose deserialization throws gives a warning.
\<close>

definition patchOf ::
  "(string \<Rightarrow> string) \<Rightarrow> (string \<Rightarrow> string \<Rightarrow> exn + jsvalue) \<Rightarrow> form_group \<Rightarrow>
   (string \<times> string) list \<Rightarrow> (string \<times> jsvalue) list"
where
  "patchOf getUrlParamKey deserialize fg params =
     List.map_filter
       (\<lambda>(urlKey, val).
          (case deserialize urlKey val of
             Inl e \<Rightarrow> None
           | Inr x \<Rightarrow> map_option (\<lambda>formKey. (formKey, x)) (getFormControlKey getUrlParamKey fg urlKey)))
       params"

definition failuresOf ::
  "(string \<Rightarrow> string \<Rightarrow> exn + jsvalue) \<Rightarrow> (string \<times> string) list \<Rightarrow> diagnostic list"
where
  "failuresOf deserialize params =
     List.map_filter
       (\<lambda>(urlKey, val).
          (case deserialize urlKey val of
             Inl e \<Rightarrow> Some (FailedToDeserialize urlKey e)
           | Inr x \<Rightarrow> None))
       params"

text \<open>An entry is well-formed for the form: its value is not empty and its key resolves to a control.\<close>

definition resolves :: "(string \<Rightarrow> string) \<Rightarrow> form_group \<Rightarrow> string \<times> string \<Rightarrow> bool" where
  "resolves getUrlParamKey fg kv =
     (case kv of (urlKey, val) \<Rightarrow>
        val \<noteq> [] \<and>
        (case getFormControlKey getUrlParamKey fg urlKey of
           None \<Rightarrow> False
         | Some formKey \<Rightarrow> formGet fg formKey \<noteq> None))"

text \<open>The same day at local midnight; any other value as it is.\<close>

definition atMidnight :: "jsvalue \<Rightarrow> jsvalue" where
  "atMidnight v =
     (case v of
        DateV d \<Rightarrow> (case d of InvalidDate \<Rightarrow> v | LocalDate y m dd t \<Rightarrow> DateV (LocalDate y m dd 0))
      | _ \<Rightarrow> v)"

text \<open>
  A control of a form of date filters, as those of \<^verbatim>\<open>StatsComponent\<close>: its name is
  read as a date key and is a plain name; it holds nothing, or a valid date of a year
  from 100 on.
\<close>

definition dateControl :: "string \<times> control \<Rightarrow> bool" where
  "dateControl nc =
     (case nc of (name, c) \<Rightarrow>
        (jsIncludes name ''date'' \<or> jsIncludes name ''Date'') \<and> CHR ''.'' \<notin> set name \<and>
        (case cvalue c of
           Null \<Rightarrow> True
         | Undefined \<Rightarrow> True
         | DateV d \<Rightarrow> validDate d \<and> (case d of InvalidDate \<Rightarrow> False | LocalDate y m dd t \<Rightarrow> 100 \<le> y)
         | _ \<Rightarrow> False))"

text \<open>The query parameters of the location after a sequence of navigations.\<close>

definition wireAfter :: "navigation list \<Rightarrow> (string \<times> string) list \<Rightarrow> (string \<times> string) list" where
  "wireAfter navs start = foldl (\<lambda>current nav. routerNavigate nav current) start navs"

text \<open>
  An implementation of the abstract \<^verbatim>\<open>deserializeUrlParam\<close> that throws, to exercise
  the \<^verbatim>\<open>catch\<close>: that of \<^verbatim>\<open>StatsComponent\<close>, made to throw where it now returns the
  Invalid Date.
\<close>

definition Stats_deserialize_throwing :: "string \<Rightarrow> string \<Rightarrow> exn + jsvalue" where
  "Stats_deserialize_throwing key val =
     (case Stats_deserializeUrlParam key val of
        DateV d \<Rightarrow>
          (case d of
             InvalidDate \<Rightarrow> Inl (Exn ''Invalid date'')
           | LocalDate y m dd t \<Rightarrow> Inr (DateV d))
      | x \<Rightarrow> Inr x)"

text \<open>
  The record the projector is specified to give: one entry for each field of the form
  value that serializes, under its URL key, in the order of the form.
\<close>

definition projection :: "(string \<Rightarrow> string) \<Rightarrow> (string \<times> jsvalue) list \<Rightarrow> (string \<times> string) list" where
  "projection getUrlParamKey fv =
     List.map_filter
       (\<lambda>(key, val). map_option (\<lambda>s. (getUrlParamKey key, s))
                        (serializeUrlParam (getUrlParamKey key) val))
       fv"

text \<open>
  The Stats component once \<^verbatim>\<open>ngOnInit\<close> has run on a location without query
  parameters: the default filters, and the first data request served.
\<close>

definition Stats_initial :: "jsdate \<Rightarrow> unit list component" where
  "Stats_initial today =
     \<lparr>filterFormGroup = Stats_createFilters today, isLoading = False, data = Some [],
      retrySoFar = 0, fetchSubscribed = True, debounceDue = None,
      navigated = [], consoleWarned = [],
      requested = [groupValue (Stats_createFilters today)],
      loaded = [groupValue (Stats_createFilters today)],
      unhandledErrors = []\<rparr>"

text \<open>The form after a sequence of state-mutation events, and the time of the last of them.\<close>

definition finalForm :: "form_group \<Rightarrow> (nat \<times> (form_group \<Rightarrow> form_group)) list \<Rightarrow> form_group" where
  "finalForm fg evs = foldl (\<lambda>fg (now, mutate). mutate fg) fg evs"

fun lastTime :: "nat \<Rightarrow> (nat \<times> (form_group \<Rightarrow> form_group)) list \<Rightarrow> nat" where
  "lastTime prev [] = prev"
| "lastTime prev ((now, mutate) # evs) = lastTime now evs"

section \<open>Facts about the built-ins\<close>

lemma isDigit_digitChar: "n < 10 \<Longrightarrow> isDigit (digitChar n)"
  by (simp add: isDigit_def digitChar_def)

lemma digitVal_digitChar: "n < 10 \<Longrightarrow> digitVal (digitChar n) = n"
  by (simp add: digitVal_def digitChar_def)

lemma showNat_allDigits: "allDigits (showNat n)"
proof (induction n rule: showNat.induct)
  case (1 n)
  show ?case
  proof (cases "n < 10")
    case True
    then show ?thesis by (subst showNat.simps) (simp add: allDigits_def isDigit_digitChar)
  next
    case False
    with 1 show ?thesis
      by (subst showNat.simps) (simp add: allDigits_def isDigit_digitChar)
  qed
qed

lemma digitsVal_snoc: "digitsVal (s @ [c]) = 10 * digitsVal s + digitVal c"
  by (simp add: digitsVal_def)

lemma digitsVal_showNat: "digitsVal (showNat n) = n"
proof (induction n rule: showNat.induct)
  case (1 n)
  show ?case
  proof (cases "n < 10")
    case True
    then show ?thesis by (subst showNat.simps) (simp add: digitsVal_def digitVal_digitChar)
  next
    case False
    with 1 show ?thesis
      by (subst showNat.simps) (simp add: digitsVal_snoc digitVal_digitChar)
  qed
qed

lemma digitsVal_zeros: "digitsVal (replicate k (CHR ''0'') @ s) = digitsVal s"
proof -
  have "foldl (\<lambda>a c. 10 * a + digitVal c) 0 (replicate k (CHR ''0'')) = 0"
    by (induction k) (simp_all add: digitVal_def)
  then show ?thesis by (simp add: digitsVal_def)
qed

lemma allDigits_padStart: "allDigits s \<Longrightarrow> allDigits (padStart n (CHR ''0'') s)"
  by (auto simp: allDigits_def padStart_def isDigit_def list_all_iff)

lemma digitsVal_padStart: "digitsVal (padStart n (CHR ''0'') s) = digitsVal s"
  by (simp add: padStart_def digitsVal_zeros)

lemma jsTrim_id: "s \<noteq> [] \<Longrightarrow> \<not> isWhite (hd s) \<Longrightarrow> \<not> isWhite (last s) \<Longrightarrow> jsTrim s = s"
proof -
  assume ne: "s \<noteq> []" and h: "\<not> isWhite (hd s)" and l: "\<not> isWhite (last s)"
  from ne h have a: "dropWhile isWhite s = s"
    by (cases s) auto
  from ne l have "\<not> isWhite (hd (rev s))"
    by (simp add: hd_rev)
  with ne have "dropWhile isWhite (rev s) = rev s"
    by (cases "rev s") auto
  with a show ?thesis
    by (simp add: jsTrim_def)
qed

lemma isDigit_not_white: "isDigit c \<Longrightarrow> \<not> isWhite c"
  by (simp add: isDigit_def isWhite_def Let_def)

lemma startsWith_digit: 
  "list_all isDigit s \<Longrightarrow> \<not> isDigit c \<Longrightarrow> \<not> startsWith s [c0, c]"
proof (cases s)
  case Nil
  then show ?thesis by simp
next
  case (Cons a l)
  assume "list_all isDigit s" "\<not> isDigit c"
  with Cons show ?thesis by (cases l) auto
qed

lemma jsNumber_digits:
  assumes "allDigits s"
  shows "jsNumber s = Fin (of_nat (digitsVal s))"
proof -
  from assms have ne: "s \<noteq> []" and ds: "list_all isDigit s"
    by (simp_all add: allDigits_def)
  from ne ds have h: "isDigit (hd s)" and l: "isDigit (last s)"
    by (auto simp: list_all_iff)
  have tr: "jsTrim s = s"
    using ne h l by (simp add: jsTrim_id isDigit_not_white)
  have pre: "\<not> startsWith s ''0x''" "\<not> startsWith s ''0X''" "\<not> startsWith s ''0o''"
    "\<not> startsWith s ''0O''" "\<not> startsWith s ''0b''" "\<not> startsWith s ''0B''"
    by (rule startsWith_digit [OF ds], simp add: isDigit_def)+
  have sg: "hd s \<noteq> CHR ''+''" "hd s \<noteq> CHR ''-''"
    using h by (auto simp: isDigit_def)
  have inf: "s \<noteq> ''Infinity''"
    using h by (auto simp: isDigit_def)
  have tw: "takeWhile isDigit s = s" "dropWhile isDigit s = []"
    using ds by (simp_all add: list_all_iff)
  have ud: "unsignedDecimal s = Some (of_nat (digitsVal s))"
    using ne by (simp add: unsignedDecimal_def tw exponentPart_def scale10_def)
  show ?thesis
    using ne by (simp add: jsNumber_def tr pre sg inf ud Let_def)
qed

lemma jsSplit_no_sep: "sep \<notin> set a \<Longrightarrow> jsSplit sep a = [a]"
  by (induction a) auto

lemma jsSplit_append: "sep \<notin> set a \<Longrightarrow> jsSplit sep (a @ sep # b) = a # jsSplit sep b"
  by (induction a) auto

lemma isDigit_not_dash: "list_all isDigit s \<Longrightarrow> CHR ''-'' \<notin> set s"
  by (auto simp: list_all_iff isDigit_def)

lemma normalize_in_month: "0 \<le> k \<Longrightarrow> k < daysInMonth y m \<Longrightarrow> normalize y m k = (y, m, nat k + 1)"
  by (subst normalize.simps) simp

lemma showNat_nonempty: "showNat n \<noteq> []"
  using showNat_allDigits [of n] by (simp add: allDigits_def)

lemma length_showNat_le: "0 < k \<Longrightarrow> length (showNat n) \<le> k \<longleftrightarrow> n < 10 ^ k"
proof (induction k arbitrary: n)
  case 0
  then show ?case by simp
next
  case (Suc k)
  show ?case
  proof (cases "n < 10")
    case True
    have "(1::nat) \<le> 10 ^ k" by simp
    with True have "n < 10 * 10 ^ k" by linarith
    then have "n < 10 ^ Suc k" by simp
    with True show ?thesis by (subst showNat.simps) simp
  next
    case False
    note big = this
    show ?thesis
    proof (cases "k = 0")
      case True
      with big showNat_nonempty [of "n div 10"] show ?thesis
        by (subst showNat.simps) (cases "showNat (n div 10)"; simp)
    next
      case False
      then have "length (showNat (n div 10)) \<le> k \<longleftrightarrow> n div 10 < 10 ^ k"
        using Suc.IH by simp
      moreover have "n div 10 < 10 ^ k \<longleftrightarrow> n < 10 ^ Suc k"
        by (simp add: less_mult_imp_div_less div_less_iff_less_mult mult.commute)
      ultimately show ?thesis
        using big by (subst showNat.simps) simp
    qed
  qed
qed

lemma length_showNat_4: "length (showNat n) = 4 \<longleftrightarrow> 1000 \<le> n \<and> n \<le> 9999"
proof -
  have a: "length (showNat n) \<le> 4 \<longleftrightarrow> n < 10 ^ 4"
    by (rule length_showNat_le) simp
  have b: "length (showNat n) \<le> 3 \<longleftrightarrow> n < 10 ^ 3"
    by (rule length_showNat_le) simp
  from a b show ?thesis by auto
qed

lemma length_pad2: "n < 100 \<Longrightarrow> length (padStart 2 (CHR ''0'') (showNat n)) = 2"
proof -
  assume "n < 100"
  then have "length (showNat n) \<le> 2"
    using length_showNat_le [of 2 n] by simp
  moreover have "length (showNat n) \<noteq> 0"
    using showNat_nonempty by simp
  ultimately show ?thesis
    by (auto simp: padStart_def)
qed

lemma toInteger_of_nat: "toInteger (of_nat n) = int n"
  by (simp add: toInteger_def)

lemma daysInMonth_le: "daysInMonth y m \<le> 31"
  by (simp add: daysInMonth_def)

lemma jsSplit_three:
  assumes "list_all isDigit a" "list_all isDigit b" "list_all isDigit c"
  shows "jsSplit (CHR ''-'') (a @ ''-'' @ b @ ''-'' @ c) = [a, b, c]"
  using assms by (simp add: jsSplit_append jsSplit_no_sep isDigit_not_dash)

lemma Stats_deserialize_digits:
  assumes k: "jsIncludes key ''date'' \<or> jsIncludes key ''Date''"
    and ys: "allDigits ys" and ms: "allDigits ms" and ds: "allDigits ds"
  shows "Stats_deserializeUrlParam key (ys @ ''-'' @ ms @ ''-'' @ ds) =
         DateV (newDate (Fin (of_nat (digitsVal ys))) (Fin (of_nat (digitsVal ms) - 1))
                  (Fin (of_nat (digitsVal ds))))"
proof -
  have sp: "jsSplit (CHR ''-'') (ys @ ''-'' @ ms @ ''-'' @ ds) = [ys, ms, ds]"
    using ys ms ds by (intro jsSplit_three) (simp_all add: allDigits_def)
  show ?thesis
    using k by (simp add: Stats_deserializeUrlParam_def sp jsNumber_digits ys ms ds element_def
        minusOne_def Let_def del: append.simps)
qed

lemma newDate_valid:
  assumes "validDate (LocalDate y m d t)" and "100 \<le> y"
  shows "newDate (Fin (of_nat (nat y))) (Fin (of_nat (Suc m) - 1)) (Fin (of_nat d)) = LocalDate y m d 0"
proof -
  from assms have m: "m < 12" and d1: "1 \<le> d" and d2: "int d \<le> daysInMonth y m"
    and r: "inTimeRange y m d"
    by (simp_all add: validDate_def)
  have ty: "toInteger (of_int y) = y"
    using assms(2) by (simp add: toInteger_def)
  have tm: "toInteger (of_nat (Suc m) - 1) = int m"
    using toInteger_of_nat [of m] by simp
  have nz: "normalize y m (int d - 1) = (y, m, d)"
    using d1 d2 by (simp add: normalize_in_month)
  show ?thesis
    using assms(2) m r
    by (simp add: newDate_def ty tm toInteger_of_nat nz Let_def)
qed

lemma date_round_trip:
  assumes v: "validDate (LocalDate y m d t)"
    and y: "100 \<le> y"
    and k: "jsIncludes key ''date'' \<or> jsIncludes key ''Date''"
  shows "\<exists>ys ms ds.
           serializeUrlParam key (DateV (LocalDate y m d t)) = Some (ys @ ''-'' @ ms @ ''-'' @ ds) \<and>
           allDigits ys \<and> int (digitsVal ys) = y \<and> (length ys = 4 \<longleftrightarrow> 1000 \<le> y \<and> y \<le> 9999) \<and>
           allDigits ms \<and> digitsVal ms = m + 1 \<and> length ms = 2 \<and>
           allDigits ds \<and> digitsVal ds = d \<and> length ds = 2 \<and>
           Stats_deserializeUrlParam key (ys @ ''-'' @ ms @ ''-'' @ ds) = DateV (LocalDate y m d 0) \<and>
           sameDay (LocalDate y m d 0) (LocalDate y m d t)"
proof -
  define ys where "ys = showNat (nat y)"
  define ms where "ms = padStart 2 (CHR ''0'') (showNat (Suc m))"
  define ds where "ds = padStart 2 (CHR ''0'') (showNat d)"
  from v have m: "m < 12" and d2: "int d \<le> daysInMonth y m"
    by (simp_all add: validDate_def)
  have d3: "d < 100"
    using d2 daysInMonth_le [of y m] by simp
  have ser: "serializeUrlParam key (DateV (LocalDate y m d t)) = Some (ys @ ''-'' @ ms @ ''-'' @ ds)"
    using y by (simp add: serializeUrlParam_def getFullYear_def getMonth_def getDate_def
        intToString_def showInt_def ys_def ms_def ds_def nat_add_distrib)
  have a1: "allDigits ys" "allDigits ms" "allDigits ds"
    by (simp_all add: ys_def ms_def ds_def showNat_allDigits allDigits_padStart)
  have a2: "digitsVal ys = nat y" "digitsVal ms = Suc m" "digitsVal ds = d"
    by (simp_all add: ys_def ms_def ds_def digitsVal_showNat digitsVal_padStart)
  have a3: "length ms = 2" "length ds = 2"
    using m d3 by (simp_all add: ms_def ds_def length_pad2)
  have a4: "length ys = 4 \<longleftrightarrow> 1000 \<le> y \<and> y \<le> 9999"
    using y by (auto simp: ys_def length_showNat_4)
  have de: "Stats_deserializeUrlParam key (ys @ ''-'' @ ms @ ''-'' @ ds) = DateV (LocalDate y m d 0)"
    using Stats_deserialize_digits [OF k a1] newDate_valid [OF v y] by (simp add: a2)
  show ?thesis
    using ser a1 a2 a3 a4 de y by (intro exI [of _ ys] exI [of _ ms] exI [of _ ds]) simp
qed

subsection \<open>Facts about the form\<close>

lemma patchValue_Nil: "patchValue fg [] = fg"
  by (induction fg) (auto simp: patchValue_def)

lemma map_fst_patchValue: "map fst (patchValue fg v) = map fst fg"
  by (induction fg) (auto simp: patchValue_def)

lemma map_of_patchValue:
  "map_of (patchValue fg v) name =
     map_option (\<lambda>c. case map_of v name of None \<Rightarrow> c | Some x \<Rightarrow> c\<lparr>cvalue := x\<rparr>) (map_of fg name)"
  by (induction fg) (auto simp: patchValue_def split: option.splits)

lemma formGet_patchValue_other:
  "name \<notin> fst ` set v \<Longrightarrow> formGet (patchValue fg v) name = formGet fg name"
proof -
  assume "name \<notin> fst ` set v"
  then have "map_of v name = None"
    by (simp add: map_of_eq_None_iff)
  then show ?thesis
    by (simp add: formGet_def map_of_patchValue option.map_ident)
qed

lemma getFormControlKey_Some:
  "getFormControlKey gk fg urlKey = Some formKey \<Longrightarrow>
     gk formKey = urlKey \<and> formKey \<in> fst ` set fg \<and> formKey \<noteq> []"
  by (auto simp: getFormControlKey_def find_Some_iff split: option.splits if_splits)

subsection \<open>Facts about \<^verbatim>\<open>updateFormFromUrl\<close>\<close>

lemma entryStep_empty: "entryStep gk des fg (urlKey, []) st = Inr st"
  by (simp add: entryStep_def)

lemma entryStep_Inr: "\<exists>st'. entryStep gk des fg kv st = Inr st'"
  by (cases kv) (auto simp: entryStep_def split: sum.splits)

lemma forEach_entryStep_Inr: "\<exists>st'. forEach (entryStep gk des fg) params st = Inr st'"
proof (induction params arbitrary: st)
  case Nil
  then show ?case by simp
next
  case (Cons kv params)
  obtain st1 where "entryStep gk des fg kv st = Inr st1"
    using entryStep_Inr by blast
  with Cons show ?case by simp
qed

lemma updateFormFromUrl_Inr: "\<exists>r. updateFormFromUrl gk des fg params = Inr r"
proof -
  obtain st where "forEach (entryStep gk des fg) params
      \<lparr>formValue = [], hasChanges = False, warned = []\<rparr> = Inr st"
    using forEach_entryStep_Inr by blast
  then show ?thesis by (simp add: updateFormFromUrl_def)
qed

lemma forEach_skip_empty:
  "forEach (entryStep gk des fg) (filter (\<lambda>(k, v). v \<noteq> []) params) st =
   forEach (entryStep gk des fg) params st"
proof (induction params arbitrary: st)
  case Nil
  then show ?case by simp
next
  case (Cons kv params)
  obtain k v where kv: "kv = (k, v)" by (cases kv)
  show ?case
  proof (cases "v = []")
    case True
    with kv Cons show ?thesis by (simp add: entryStep_empty)
  next
    case False
    with kv Cons show ?thesis by (simp split: sum.splits)
  qed
qed

lemma entryStep_cong:
  assumes "\<And>k v. v \<noteq> [] \<Longrightarrow> des k v = des' k v"
  shows "entryStep gk des fg kv st = entryStep gk des' fg kv st"
proof -
  obtain k v where kv: "kv = (k, v)" by (cases kv)
  show ?thesis
  proof (cases "v = []")
    case True
    with kv show ?thesis by (simp add: entryStep_def)
  next
    case False
    with kv assms [of v k] show ?thesis
      by (simp add: entryStep_def tryBlock_def split: option.splits)
  qed
qed

lemma forEach_entryStep_cong:
  assumes "\<And>k v. v \<noteq> [] \<Longrightarrow> des k v = des' k v"
  shows "forEach (entryStep gk des fg) params st = forEach (entryStep gk des' fg) params st"
  by (induction params arbitrary: st) (simp_all add: entryStep_cong [OF assms] split: sum.splits)

text \<open>The loop over entries that all resolve: assignments and warnings, in the order of the record.\<close>

lemma entryStep_resolved:
  assumes "resolves gk fg kv"
  shows "entryStep gk des fg kv st =
     Inr (st\<lparr>formValue := foldl (\<lambda>acc (k, x). AList.update k x acc) (formValue st) (patchOf gk des fg [kv]),
            hasChanges := hasChanges st \<or> patchOf gk des fg [kv] \<noteq> [],
            warned := warned st @ failuresOf des [kv]\<rparr>)"
proof -
  obtain k v where kv: "kv = (k, v)" by (cases kv)
  from assms kv obtain fk c where ne: "v \<noteq> []" and fk: "getFormControlKey gk fg k = Some fk"
    and c: "formGet fg fk = Some c"
    by (auto simp: resolves_def split: option.splits)
  show ?thesis
    using ne fk c kv
    by (cases "des k v") (simp_all add: entryStep_def tryBlock_def patchOf_def failuresOf_def)
qed

lemma patchOf_Cons: "patchOf gk des fg (kv # params) = patchOf gk des fg [kv] @ patchOf gk des fg params"
  by (cases kv) (simp add: patchOf_def split: sum.splits option.splits)

lemma failuresOf_Cons: "failuresOf des (kv # params) = failuresOf des [kv] @ failuresOf des params"
  by (cases kv) (simp add: failuresOf_def split: sum.splits)

lemma forEach_resolved:
  assumes "list_all (resolves gk fg) params"
  shows "forEach (entryStep gk des fg) params st =
     Inr (st\<lparr>formValue := foldl (\<lambda>acc (k, x). AList.update k x acc) (formValue st) (patchOf gk des fg params),
            hasChanges := hasChanges st \<or> patchOf gk des fg params \<noteq> [],
            warned := warned st @ failuresOf des params\<rparr>)"
  using assms
proof (induction params arbitrary: st)
  case Nil
  then show ?case by (simp add: patchOf_def failuresOf_def)
next
  case (Cons kv params)
  from Cons.prems have r: "resolves gk fg kv" and rs: "list_all (resolves gk fg) params"
    by simp_all
  show ?case
    by (simp add: entryStep_resolved [OF r] Cons.IH [OF rs]
        patchOf_Cons [of gk des fg kv params] failuresOf_Cons [of des kv params]
        del: foldl_Cons)
qed

lemma foldl_update_fresh:
  assumes "distinct (map fst xs)" and "fst ` set acc \<inter> fst ` set xs = {}"
  shows "foldl (\<lambda>acc (k, x). AList.update k x acc) acc xs = acc @ xs"
  using assms
proof (induction xs arbitrary: acc)
  case Nil
  then show ?case by simp
next
  case (Cons p xs)
  obtain k x where p: "p = (k, x)" by (cases p)
  from Cons.prems p have fresh: "k \<notin> fst ` set acc"
    by auto
  have upd: "AList.update k x acc = acc @ [(k, x)]"
    using fresh by (induction acc) auto
  have "fst ` set (acc @ [(k, x)]) \<inter> fst ` set xs = {}"
    using Cons.prems p by auto
  moreover have "distinct (map fst xs)"
    using Cons.prems by simp
  ultimately have "foldl (\<lambda>acc (k, x). AList.update k x acc) (acc @ [(k, x)]) xs = (acc @ [(k, x)]) @ xs"
    by (rule Cons.IH [rotated])
  with p upd show ?case by simp
qed

lemma patchOf_keys:
  "fk \<in> fst ` set (patchOf gk des fg params) \<Longrightarrow> gk fk \<in> fst ` set params"
proof (induction params)
  case Nil
  then show ?case by (simp add: patchOf_def)
next
  case (Cons kv params)
  obtain k v where kv: "kv = (k, v)" by (cases kv)
  from Cons.prems have "fk \<in> fst ` set (patchOf gk des fg [kv]) \<or> fk \<in> fst ` set (patchOf gk des fg params)"
    by (subst (asm) patchOf_Cons) auto
  then show ?case
  proof
    assume "fk \<in> fst ` set (patchOf gk des fg [kv])"
    then have "getFormControlKey gk fg k = Some fk"
      using kv by (auto simp: patchOf_def split: sum.splits option.splits)
    then have "gk fk = k" by (simp add: getFormControlKey_Some)
    with kv show ?thesis by simp
  next
    assume "fk \<in> fst ` set (patchOf gk des fg params)"
    with Cons.IH show ?thesis by simp
  qed
qed

lemma distinct_patchOf:
  "distinct (map fst params) \<Longrightarrow> distinct (map fst (patchOf gk des fg params))"
proof (induction params)
  case Nil
  then show ?case by (simp add: patchOf_def)
next
  case (Cons kv params)
  obtain k v where kv: "kv = (k, v)" by (cases kv)
  from Cons have d: "distinct (map fst (patchOf gk des fg params))" and nk: "k \<notin> fst ` set params"
    using kv by auto
  have one: "patchOf gk des fg [kv] = [] \<or> (\<exists>fk x. patchOf gk des fg [kv] = [(fk, x)] \<and> gk fk = k)"
    using kv by (auto simp: patchOf_def getFormControlKey_Some split: sum.splits option.splits)
  then show ?case
  proof
    assume "patchOf gk des fg [kv] = []"
    with d show ?thesis by (subst patchOf_Cons) simp
  next
    assume "\<exists>fk x. patchOf gk des fg [kv] = [(fk, x)] \<and> gk fk = k"
    then obtain fk x where e: "patchOf gk des fg [kv] = [(fk, x)]" and g: "gk fk = k"
      by blast
    have "fk \<notin> fst ` set (patchOf gk des fg params)"
      using patchOf_keys [of fk gk des fg params] g nk by auto
    with d e show ?thesis by (subst patchOf_Cons) simp
  qed
qed

lemma updateFormFromUrl_resolved:
  assumes "distinct (map fst params)" and "list_all (resolves gk fg) params"
  shows "updateFormFromUrl gk des fg params =
     Inr (patchValue fg (patchOf gk des fg params),
          \<lparr>formValue = patchOf gk des fg params,
           hasChanges = (patchOf gk des fg params \<noteq> []),
           warned = failuresOf des params\<rparr>)"
proof -
  have "foldl (\<lambda>acc (k, x). AList.update k x acc) [] (patchOf gk des fg params) =
        [] @ patchOf gk des fg params"
    by (rule foldl_update_fresh) (simp_all add: distinct_patchOf assms(1))
  then show ?thesis
    by (simp add: updateFormFromUrl_def forEach_resolved [OF assms(2)] patchValue_Nil)
qed

subsection \<open>Facts about \<^verbatim>\<open>updateUrl\<close>\<close>

lemma update_fresh: "k \<notin> fst ` set acc \<Longrightarrow> AList.update k x acc = acc @ [(k, x)]"
  by (induction acc) auto

lemma projection_Nil: "projection gk [] = []"
  by (simp add: projection_def)

lemma projection_Cons:
  "projection gk ((key, val) # fv) =
     (case serializeUrlParam (gk key) val of
        None \<Rightarrow> projection gk fv
      | Some s \<Rightarrow> (gk key, s) # projection gk fv)"
  by (simp add: projection_def split: option.splits)

lemma projection_keys:
  "k \<in> fst ` set (projection gk fv) \<Longrightarrow>
     \<exists>key val. (key, val) \<in> set fv \<and> gk key = k \<and> serializeUrlParam k val \<noteq> None"
proof (induction fv)
  case Nil
  then show ?case by (simp add: projection_Nil)
next
  case (Cons kv fv)
  obtain key val where kv: "kv = (key, val)" by (cases kv)
  show ?case
  proof (cases "k \<in> fst ` set (projection gk fv)")
    case True
    with Cons.IH show ?thesis by auto
  next
    case False
    with Cons.prems kv have "gk key = k \<and> serializeUrlParam k val \<noteq> None"
      by (auto simp: projection_Cons split: option.splits)
    with kv show ?thesis by auto
  qed
qed

lemma updateUrl_foldl:
  assumes "distinct (map fst fv)" and "inj_on gk (fst ` set fv)"
    and "fst ` set acc \<inter> gk ` fst ` set fv = {}"
  shows "foldl (updateUrl_step gk) acc fv = acc @ projection gk fv"
  using assms
proof (induction fv arbitrary: acc)
  case Nil
  then show ?case by (simp add: projection_Nil)
next
  case (Cons kv fv)
  obtain key val where kv: "kv = (key, val)" by (cases kv)
  from Cons.prems kv have d: "distinct (map fst fv)" and i: "inj_on gk (fst ` set fv)"
    and nk: "key \<notin> fst ` set fv" and fresh: "gk key \<notin> fst ` set acc"
    and rest: "fst ` set acc \<inter> gk ` fst ` set fv = {}"
    by (auto simp: inj_on_def)
  from Cons.prems(2) kv nk have gnk: "gk key \<notin> gk ` fst ` set fv"
    by (auto simp: inj_on_def)
  show ?case
  proof (cases "serializeUrlParam (gk key) val")
    case None
    with kv Cons.IH [OF d i rest] show ?thesis
      by (simp add: updateUrl_step_def projection_Cons)
  next
    case (Some s)
    have "fst ` set (acc @ [(gk key, s)]) \<inter> gk ` fst ` set fv = {}"
      using rest gnk by auto
    from Cons.IH [OF d i this] Some kv fresh show ?thesis
      by (simp add: updateUrl_step_def projection_Cons update_fresh)
  qed
qed

lemma map_fst_groupValue:
  "map fst (groupValue fg) =
     map fst (filter (\<lambda>(name, c). cenabled c \<or> list_all (\<lambda>(name, c). \<not> cenabled c) fg) fg)"
  by (simp add: groupValue_def Let_def comp_def case_prod_unfold)

lemma distinct_groupValue: "distinct (map fst fg) \<Longrightarrow> distinct (map fst (groupValue fg))"
  by (simp add: map_fst_groupValue distinct_map_filter)

lemma groupValue_names: "fst ` set (groupValue fg) \<subseteq> fst ` set fg"
  by (force simp: groupValue_def Let_def)

lemma groupValue_entry:
  "(name, v) \<in> set (groupValue fg) \<Longrightarrow> \<exists>c. (name, c) \<in> set fg \<and> v = cvalue c"
  by (auto simp: groupValue_def Let_def)

lemma updateUrl_queryParams_projection:
  assumes "distinct (map fst fg)" and "inj_on gk (fst ` set fg)"
  shows "updateUrl_queryParams gk fg = projection gk (groupValue fg)"
proof -
  have "inj_on gk (fst ` set (groupValue fg))"
    using assms(2) groupValue_names by (rule inj_on_subset)
  then have "foldl (updateUrl_step gk) [] (groupValue fg) = [] @ projection gk (groupValue fg)"
    using distinct_groupValue [OF assms(1)] by (intro updateUrl_foldl) simp_all
  then show ?thesis by (simp add: updateUrl_queryParams_def)
qed

lemma setValue_map:
  "setValue name x fg = map (\<lambda>(n, c). (n, if n = name then c\<lparr>cvalue := x\<rparr> else c)) fg"
  by (induction fg) (auto simp: setValue_def patchValue_def)

lemma groupValue_setValue:
  "groupValue (setValue name x fg) =
     map (\<lambda>(n, v). (n, if n = name then x else v)) (groupValue fg)"
proof -
  have dis: "list_all (\<lambda>(n, c). \<not> cenabled c) (setValue name x fg) =
             list_all (\<lambda>(n, c). \<not> cenabled c) fg"
    by (induction fg) (auto simp: setValue_map split: if_splits)
  have "map (\<lambda>(n, c). (n, cvalue c)) (filter (\<lambda>(n, c). cenabled c \<or> b) (setValue name x fg)) =
        map (\<lambda>(n, v). (n, if n = name then x else v))
          (map (\<lambda>(n, c). (n, cvalue c)) (filter (\<lambda>(n, c). cenabled c \<or> b) fg))" for b
    by (induction fg) (auto simp: setValue_map split: if_splits)
  then show ?thesis
    by (simp add: groupValue_def Let_def dis)
qed

lemma projection_clear:
  assumes "inj_on gk A" and "name \<in> A" and "fst ` set fv \<subseteq> A"
    and "serializeUrlParam (gk name) x = None"
  shows "projection gk (map (\<lambda>(n, v). (n, if n = name then x else v)) fv) =
         filter (\<lambda>(k, s). k \<noteq> gk name) (projection gk fv)"
  using assms(3)
proof (induction fv)
  case Nil
  then show ?case by (simp add: projection_Nil)
next
  case (Cons kv fv)
  obtain key val where kv: "kv = (key, val)" by (cases kv)
  from Cons.prems kv have inA: "key \<in> A" and rest: "fst ` set fv \<subseteq> A"
    by auto
  show ?case
  proof (cases "key = name")
    case True
    with kv Cons.IH [OF rest] assms(4) show ?thesis
      by (simp add: projection_Cons split: option.splits)
  next
    case False
    with assms(1,2) inA have "gk key \<noteq> gk name"
      by (auto simp: inj_on_def)
    with False kv Cons.IH [OF rest] show ?thesis
      by (simp add: projection_Cons split: option.splits)
  qed
qed

lemma wireAfter_updateUrl:
  "wireAfter (navigated (updateUrl gk c)) w = updateUrl_queryParams gk (filterFormGroup c)"
  by (simp add: wireAfter_def updateUrl_def routerNavigate_def)

lemma filterFormGroup_updateUrl: "filterFormGroup (updateUrl gk c) = filterFormGroup c"
  by (simp add: updateUrl_def)

subsection \<open>Facts about the echo on a form of date filters\<close>

lemma set_patchOf:
  "(fk, x) \<in> set (patchOf gk des fg params) \<longleftrightarrow>
     (\<exists>k v. (k, v) \<in> set params \<and> des k v = Inr x \<and> getFormControlKey gk fg k = Some fk)"
  by (force simp: patchOf_def List.map_filter_def split: sum.splits option.splits)

lemma set_projection:
  "(k, s) \<in> set (projection gk fv) \<longleftrightarrow>
     (\<exists>key val. (key, val) \<in> set fv \<and> k = gk key \<and> serializeUrlParam (gk key) val = Some s)"
  by (force simp: projection_def List.map_filter_def split: option.splits)

lemma set_groupValue:
  "(name, v) \<in> set (groupValue fg) \<longleftrightarrow>
     (\<exists>c. (name, c) \<in> set fg \<and> v = cvalue c \<and>
          (cenabled c \<or> list_all (\<lambda>(name, c). \<not> cenabled c) fg))"
  by (force simp: groupValue_def Let_def)

lemma distinct_projection:
  assumes "distinct (map fst fv)" and "inj_on gk (fst ` set fv)"
  shows "distinct (map fst (projection gk fv))"
  using assms
proof (induction fv)
  case Nil
  then show ?case by (simp add: projection_Nil)
next
  case (Cons kv fv)
  obtain key val where kv: "kv = (key, val)" by (cases kv)
  from Cons.prems kv have d: "distinct (map fst fv)" and i: "inj_on gk (fst ` set fv)"
    and nk: "key \<notin> fst ` set fv"
    by (auto simp: inj_on_def)
  have "gk key \<notin> fst ` set (projection gk fv)"
  proof
    assume "gk key \<in> fst ` set (projection gk fv)"
    then obtain key' val' where "(key', val') \<in> set fv" and "gk key' = gk key"
      using projection_keys by blast
    with Cons.prems(2) kv nk show False
      by (force simp: inj_on_def)
  qed
  with Cons.IH [OF d i] kv show ?case
    by (simp add: projection_Cons split: option.splits)
qed

lemma getFormControlKey_direct:
  assumes "name \<in> fst ` set fg" and "name \<noteq> []"
  shows "getFormControlKey Stats_getUrlParamKey fg name = Some name"
proof -
  have "x \<in> set xs \<Longrightarrow> find (\<lambda>key. key = x) xs = Some x" for x :: string and xs
    by (induction xs) auto
  with assms(1) have "find (\<lambda>key. key = name) (map fst fg) = Some name"
    by simp
  with assms(2) show ?thesis
    by (simp add: getFormControlKey_def Stats_getUrlParamKey_def)
qed

lemma failuresOf_Stats: "failuresOf Stats_deserialize params = []"
  by (induction params) (auto simp: failuresOf_def Stats_deserialize_def)

lemma jsIncludes_nonempty: "jsIncludes name (c # cs) \<Longrightarrow> name \<noteq> []"
  by auto

text \<open>What a date control contributes to the echo.\<close>

lemma dateControl_serialize:
  assumes "dateControl (name, c)"
  shows "(case cvalue c of
            DateV d \<Rightarrow>
              (\<exists>s. serializeUrlParam name (cvalue c) = Some s \<and> s \<noteq> [] \<and>
                   Stats_deserializeUrlParam name s = atMidnight (cvalue c))
          | _ \<Rightarrow> serializeUrlParam name (cvalue c) = None \<and> atMidnight (cvalue c) = cvalue c)"
proof (cases "cvalue c")
  case (DateV d)
  with assms obtain y m dd t where d: "d = LocalDate y m dd t" and v: "validDate (LocalDate y m dd t)"
    and y: "100 \<le> y" and k: "jsIncludes name ''date'' \<or> jsIncludes name ''Date''"
    by (cases d) (auto simp: dateControl_def validDate_def)
  from date_round_trip [OF v y k] obtain ys ms ds where
    "serializeUrlParam name (DateV (LocalDate y m dd t)) = Some (ys @ ''-'' @ ms @ ''-'' @ ds)"
    "Stats_deserializeUrlParam name (ys @ ''-'' @ ms @ ''-'' @ ds) = DateV (LocalDate y m dd 0)"
    by blast
  with DateV d show ?thesis
    by (simp add: atMidnight_def)
qed (use assms in \<open>auto simp: dateControl_def serializeUrlParam_def atMidnight_def\<close>)

lemma echo_on_date_filters:
  assumes d: "distinct (map fst fg)" and dc: "list_all dateControl fg"
  shows "updateFormFromUrl Stats_getUrlParamKey Stats_deserialize fg
           (updateUrl_queryParams Stats_getUrlParamKey fg) =
         Inr (map (\<lambda>(name, c).
                     (name, if cenabled c \<or> list_all (\<lambda>(name, c). \<not> cenabled c) fg
                            then c\<lparr>cvalue := atMidnight (cvalue c)\<rparr> else c)) fg,
              \<lparr>formValue = patchOf Stats_getUrlParamKey Stats_deserialize fg
                             (updateUrl_queryParams Stats_getUrlParamKey fg),
               hasChanges = (patchOf Stats_getUrlParamKey Stats_deserialize fg
                               (updateUrl_queryParams Stats_getUrlParamKey fg) \<noteq> []),
               warned = []\<rparr>)"
proof -
  let ?gk = Stats_getUrlParamKey
  let ?qp = "updateUrl_queryParams ?gk fg"
  let ?patch = "patchOf ?gk Stats_deserialize fg ?qp"
  let ?inc = "\<lambda>c. cenabled c \<or> list_all (\<lambda>(name, c). \<not> cenabled c) fg"
  have gk: "?gk = (\<lambda>key. key)"
    by (simp add: Stats_getUrlParamKey_def fun_eq_iff)
  have inj: "inj_on ?gk (fst ` set fg)"
    by (simp add: gk inj_on_def)
  have qp: "?qp = projection ?gk (groupValue fg)"
    by (rule updateUrl_queryParams_projection [OF d inj])
  have ctl: "dateControl (name, c)" if "(name, c) \<in> set fg" for name c
    using dc that by (auto simp: list_all_iff)
  have uniq: "c' = c" if "(name, c) \<in> set fg" "(name, c') \<in> set fg" for name c c'
    using d that by (metis eq_key_imp_eq_value)
  have name_ok: "name \<noteq> [] \<and> CHR ''.'' \<notin> set name" if "(name, c) \<in> set fg" for name c
    using ctl [OF that] by (auto simp: dateControl_def)
  have entry: "\<exists>c. (k, c) \<in> set fg \<and> ?inc c \<and> serializeUrlParam k (cvalue c) = Some s"
    if "(k, s) \<in> set ?qp" for k s
    using that unfolding qp by (auto simp: set_projection set_groupValue gk)
  have resolved: "list_all (resolves ?gk fg) ?qp"
    unfolding list_all_iff
  proof
    fix kv assume kv: "kv \<in> set ?qp"
    obtain k s where ks: "kv = (k, s)" by (cases kv)
    from entry kv ks obtain c where c: "(k, c) \<in> set fg"
      and s: "serializeUrlParam k (cvalue c) = Some s"
      by blast
    from dateControl_serialize [OF ctl [OF c]] s have ne: "s \<noteq> []"
      by (cases "cvalue c") auto
    from c have mem: "k \<in> fst ` set fg" by force
    from name_ok [OF c] have k: "k \<noteq> []" "CHR ''.'' \<notin> set k" by simp_all
    from c d have "map_of fg k = Some c" by simp
    with k have "formGet fg k \<noteq> None" by (simp add: formGet_def)
    with ne ks show "resolves ?gk fg kv"
      by (simp add: resolves_def getFormControlKey_direct [OF mem k(1)])
  qed
  have "inj_on ?gk (fst ` set (groupValue fg))"
    using inj groupValue_names by (rule inj_on_subset)
  then have dq: "distinct (map fst ?qp)"
    unfolding qp
    using distinct_groupValue [OF d] by (intro distinct_projection)
  have run: "updateFormFromUrl ?gk Stats_deserialize fg ?qp =
     Inr (patchValue fg ?patch,
          \<lparr>formValue = ?patch, hasChanges = (?patch \<noteq> []), warned = []\<rparr>)"
    using updateFormFromUrl_resolved [OF dq resolved, of Stats_deserialize]
    by (simp add: failuresOf_Stats)
  have dp: "distinct (map fst ?patch)"
    by (rule distinct_patchOf [OF dq])
  have inpatch: "(name, x) \<in> set ?patch \<longleftrightarrow>
      (\<exists>s. ?inc c \<and> serializeUrlParam name (cvalue c) = Some s \<and> x = Stats_deserializeUrlParam name s)"
    if c: "(name, c) \<in> set fg" for name c x
  proof
    assume "(name, x) \<in> set ?patch"
    then obtain k s where ks: "(k, s) \<in> set ?qp" and x: "Stats_deserialize k s = Inr x"
      and fk: "getFormControlKey ?gk fg k = Some name"
      by (auto simp: set_patchOf)
    from getFormControlKey_Some [OF fk] have "k = name"
      by (simp add: gk)
    with entry [OF ks] uniq [OF c] x
    show "\<exists>s. ?inc c \<and> serializeUrlParam name (cvalue c) = Some s \<and> x = Stats_deserializeUrlParam name s"
      by (auto simp: Stats_deserialize_def)
  next
    assume "\<exists>s. ?inc c \<and> serializeUrlParam name (cvalue c) = Some s \<and> x = Stats_deserializeUrlParam name s"
    then obtain s where i: "?inc c" and s: "serializeUrlParam name (cvalue c) = Some s"
      and x: "x = Stats_deserializeUrlParam name s"
      by blast
    from c i s have "(name, s) \<in> set ?qp"
      unfolding qp by (auto simp: set_projection set_groupValue gk)
    moreover from c have "name \<in> fst ` set fg" by force
    then have "getFormControlKey ?gk fg name = Some name"
      using name_ok [OF c] by (simp add: getFormControlKey_direct)
    ultimately show "(name, x) \<in> set ?patch"
      using x by (auto simp: set_patchOf Stats_deserialize_def)
  qed
  have body: "(case map_of ?patch name of None \<Rightarrow> c | Some x \<Rightarrow> c\<lparr>cvalue := x\<rparr>) =
      (if ?inc c then c\<lparr>cvalue := atMidnight (cvalue c)\<rparr> else c)"
    if c: "(name, c) \<in> set fg" for name c
  proof (cases "\<exists>s. ?inc c \<and> serializeUrlParam name (cvalue c) = Some s")
    case True
    then obtain s where i: "?inc c" and s: "serializeUrlParam name (cvalue c) = Some s"
      by blast
    from dateControl_serialize [OF ctl [OF c]] s
    have "Stats_deserializeUrlParam name s = atMidnight (cvalue c)"
      by (cases "cvalue c") auto
    with inpatch [OF c] i s have "(name, atMidnight (cvalue c)) \<in> set ?patch"
      by auto
    with dp have "map_of ?patch name = Some (atMidnight (cvalue c))"
      by simp
    with i show ?thesis by simp
  next
    case False
    with inpatch [OF c] have "name \<notin> fst ` set ?patch"
      by force
    then have none: "map_of ?patch name = None"
      by (simp add: map_of_eq_None_iff)
    show ?thesis
    proof (cases "?inc c")
      case True
      with False have "serializeUrlParam name (cvalue c) = None"
        by auto
      with dateControl_serialize [OF ctl [OF c]] have "atMidnight (cvalue c) = cvalue c"
        by (cases "cvalue c") auto
      with none True show ?thesis by simp
    next
      case False
      with none show ?thesis by simp
    qed
  qed
  have "patchValue fg ?patch =
      map (\<lambda>(name, c). (name, if ?inc c then c\<lparr>cvalue := atMidnight (cvalue c)\<rparr> else c)) fg"
    unfolding patchValue_def
    by (rule map_cong [OF refl]) (auto simp: body)
  with run show ?thesis by simp
qed

subsection \<open>Facts about the component\<close>

lemma ngOnInit_Stats:
  "ngOnInit Stats_getUrlParamKey Stats_deserialize Stats_loadData (Stats_createFilters today) [] =
   Inr (Stats_initial today)"
  by (simp add: ngOnInit_def queryParams_subscriber_def updateFormFromUrl_def
      dataUpdateRequested_next_def Stats_loadData_def Stats_initial_def Let_def)

lemma dataUpdateRequested_next_frame:
  "navigated (dataUpdateRequested_next ld c) = navigated c"
  "filterFormGroup (dataUpdateRequested_next ld c) = filterFormGroup c"
  "debounceDue (dataUpdateRequested_next ld c) = debounceDue c"
  "consoleWarned (dataUpdateRequested_next ld c) = consoleWarned c"
  "requested (dataUpdateRequested_next ld c) = requested c @ [groupValue (filterFormGroup c)]"
  "loaded (dataUpdateRequested_next ld c) =
     loaded c @ (if fetchSubscribed c then [groupValue (filterFormGroup c)] else [])"
  by (simp_all add: dataUpdateRequested_next_def Let_def split: outcome.splits)

lemma updateUrl_frame:
  "filterFormGroup (updateUrl gk c) = filterFormGroup c"
  "debounceDue (updateUrl gk c) = debounceDue c"
  "requested (updateUrl gk c) = requested c"
  "loaded (updateUrl gk c) = loaded c"
  "fetchSubscribed (updateUrl gk c) = fetchSubscribed c"
  "navigated (updateUrl gk c) =
     navigated c @ [\<lparr>queryParams = updateUrl_queryParams gk (filterFormGroup c),
                     handling = Replace, replaceUrl = True\<rparr>]"
  by (simp_all add: updateUrl_def)

lemma valueChanges_subscriber_effect:
  "navigated (valueChanges_subscriber gk ld valid c) =
     navigated c @ [\<lparr>queryParams = updateUrl_queryParams gk (filterFormGroup c),
                     handling = Replace, replaceUrl = True\<rparr>]"
  "requested (valueChanges_subscriber gk ld valid c) =
     requested c @ (if valid (filterFormGroup c) then [groupValue (filterFormGroup c)] else [])"
  "loaded (valueChanges_subscriber gk ld valid c) =
     loaded c @ (if valid (filterFormGroup c) \<and> fetchSubscribed c
                 then [groupValue (filterFormGroup c)] else [])"
  "filterFormGroup (valueChanges_subscriber gk ld valid c) = filterFormGroup c"
  "debounceDue (valueChanges_subscriber gk ld valid c) = debounceDue c"
  by (simp_all add: valueChanges_subscriber_def Let_def dataUpdateRequested_next_frame
      updateUrl_frame)

lemma elapse_early: "debounceDue c = Some due \<Longrightarrow> now < due \<Longrightarrow> elapse gk ld valid now c = c"
  by (simp add: elapse_def)

lemma elapse_idle: "debounceDue c = None \<Longrightarrow> elapse gk ld valid now c = c"
  by (simp add: elapse_def)

lemma elapse_due:
  "debounceDue c = Some due \<Longrightarrow> due \<le> now \<Longrightarrow>
     elapse gk ld valid now c = valueChanges_subscriber gk ld valid (c\<lparr>debounceDue := None\<rparr>)"
  by (simp add: elapse_def)

lemma stateChange_pending:
  "debounceDue c = Some due \<Longrightarrow> now < due \<Longrightarrow>
     stateChange gk ld valid c (now, mutate) =
       c\<lparr>filterFormGroup := mutate (filterFormGroup c), debounceDue := Some (now + 300)\<rparr>"
  by (simp add: stateChange_def elapse_early valueChanges_next_def)

lemma stateChange_idle:
  "debounceDue c = None \<Longrightarrow>
     stateChange gk ld valid c (now, mutate) =
       c\<lparr>filterFormGroup := mutate (filterFormGroup c), debounceDue := Some (now + 300)\<rparr>"
  by (simp add: stateChange_def elapse_idle valueChanges_next_def)

lemma burst:
  assumes "debounceDue c = Some (prev + 300)" and "withinWindow prev evs"
  shows "foldl (stateChange gk ld valid) c evs =
           c\<lparr>filterFormGroup := finalForm (filterFormGroup c) evs,
             debounceDue := Some (lastTime prev evs + 300)\<rparr>"
  using assms
proof (induction evs arbitrary: c prev)
  case Nil
  then show ?case by (simp add: finalForm_def)
next
  case (Cons ev evs)
  obtain now mutate where ev: "ev = (now, mutate)" by (cases ev)
  from Cons.prems ev have early: "now < prev + 300" and w: "withinWindow now evs"
    by simp_all
  let ?c = "c\<lparr>filterFormGroup := mutate (filterFormGroup c), debounceDue := Some (now + 300)\<rparr>"
  have step: "stateChange gk ld valid c ev = ?c"
    using Cons.prems(1) early ev by (simp add: stateChange_pending)
  have "debounceDue ?c = Some (now + 300)"
    by simp
  from Cons.IH [OF this w] step ev show ?case
    by (simp add: finalForm_def)
qed

lemma burst_from_idle:
  assumes "debounceDue c = None" and "withinWindow t0 evs"
  shows "foldl (stateChange gk ld valid) c ((t0, mutate) # evs) =
           c\<lparr>filterFormGroup := finalForm (filterFormGroup c) ((t0, mutate) # evs),
             debounceDue := Some (lastTime t0 evs + 300)\<rparr>"
proof -
  let ?c = "c\<lparr>filterFormGroup := mutate (filterFormGroup c), debounceDue := Some (t0 + 300)\<rparr>"
  have "debounceDue ?c = Some (t0 + 300)"
    by simp
  from burst [OF this assms(2)] show ?thesis
    by (simp add: stateChange_idle [OF assms(1)] finalForm_def)
qed

lemma withinWindow_take: "withinWindow prev evs \<Longrightarrow> withinWindow prev (take k evs)"
proof (induction evs arbitrary: prev k)
  case Nil
  then show ?case by simp
next
  case (Cons ev evs)
  obtain now mutate where ev: "ev = (now, mutate)" by (cases ev)
  with Cons show ?case by (cases k) auto
qed

lemma settle_pending:
  "debounceDue c = Some due \<Longrightarrow>
     settle gk ld valid c = valueChanges_subscriber gk ld valid (c\<lparr>debounceDue := None\<rparr>)"
  by (simp add: settle_def elapse_due)



lemma Stats_form_15_January:
  "Stats_createFilters (LocalDate 2024 0 15 43200000) =
     [(''dateFrom'', \<lparr>cvalue = DateV (LocalDate 2024 0 1 0), cenabled = True\<rparr>),
      (''dateTo'', \<lparr>cvalue = DateV (LocalDate 2024 0 15 43200000), cenabled = True\<rparr>),
      (''compareDateFrom'', \<lparr>cvalue = Null, cenabled = False\<rparr>),
      (''compareDateTo'', \<lparr>cvalue = Null, cenabled = False\<rparr>)]"
  by code_simp

lemma updateUrl_repeated:
  "navigated ((updateUrl gk ^^ k) c) =
     navigated c @ replicate k \<lparr>queryParams = updateUrl_queryParams gk (filterFormGroup c),
                                 handling = Replace, replaceUrl = True\<rparr> \<and>
   filterFormGroup ((updateUrl gk ^^ k) c) = filterFormGroup c"
proof (induction k)
  case 0
  then show ?case by simp
next
  case (Suc k)
  then show ?case
    by (simp add: updateUrl_frame replicate_append_same)
qed

section \<open>The date codec\<close>




section \<open>Malformed dates\<close>

text \<open>
  C3. The claim expects the incoming record \<^verbatim>\<open>{dateFrom: "not-a-date"}\<close> to give an
  empty patch, one diagnostic and an unchanged \<^verbatim>\<open>dateFrom\<close>. In the code the three
  pieces \<^verbatim>\<open>not\<close>, \<^verbatim>\<open>a\<close>, \<^verbatim>\<open>date\<close> become NaN, \<^verbatim>\<open>new Date(NaN, NaN, NaN)\<close> is the
  Invalid Date and nothing is thrown, so the \<^verbatim>\<open>catch\<close> never runs: the patch sets
  \<^verbatim>\<open>dateFrom\<close> to the Invalid Date and no warning is printed. Here on the form
  \<^verbatim>\<open>createFilters()\<close> builds on 15 January 2024 at noon.
\<close>

theorem C3_not_a_date_patches_invalid_date:
  "updateFormFromUrl Stats_getUrlParamKey Stats_deserialize
     (Stats_createFilters (LocalDate 2024 0 15 43200000)) [(''dateFrom'', ''not-a-date'')] =
   Inr ([(''dateFrom'', \<lparr>cvalue = DateV InvalidDate, cenabled = True\<rparr>),
         (''dateTo'', \<lparr>cvalue = DateV (LocalDate 2024 0 15 43200000), cenabled = True\<rparr>),
         (''compareDateFrom'', \<lparr>cvalue = Null, cenabled = False\<rparr>),
         (''compareDateTo'', \<lparr>cvalue = Null, cenabled = False\<rparr>)],
        \<lparr>formValue = [(''dateFrom'', DateV InvalidDate)], hasChanges = True, warned = []\<rparr>)"
  by code_simp

section \<open>Reconciliation\<close>

text \<open>
  C4. \<^verbatim>\<open>updateFormFromUrl\<close> never throws, whatever the record, the form and the
  implementations of the abstract methods: a deserialization that throws is caught, one
  entry at a time. When the keys of the record are distinct and every entry is well
  formed for the form (a value that is not empty, a key that resolves to a control), the
  patch holds one field for each entry that deserializes and nothing else, one warning is
  printed for each entry whose deserialization throws, the form is patched with that
  patch, the control of a failed entry keeps the value it had and the control of every
  other entry holds the deserialized value. With one failing and two well-formed entries
  that is a patch of exactly the two fields and one diagnostic.
\<close>

theorem C4_partial_tolerance:
  "\<exists>fg' st.
     updateFormFromUrl gk des fg params = Inr (fg', st) \<and>
     (distinct (map fst params) \<and> list_all (resolves gk fg) params \<longrightarrow>
        formValue st = patchOf gk des fg params \<and>
        length (formValue st) = length (filter (\<lambda>(k, v). \<not> isl (des k v)) params) \<and>
        warned st = failuresOf des params \<and>
        length (warned st) = length (filter (\<lambda>(k, v). isl (des k v)) params) \<and>
        fg' = patchValue fg (formValue st) \<and>
        (\<forall>(k, v) \<in> set params. \<forall>fk.
           getFormControlKey gk fg k = Some fk \<longrightarrow>
             (case des k v of
                Inl e \<Rightarrow> formGet fg' fk = formGet fg fk
              | Inr x \<Rightarrow> map_option cvalue (formGet fg' fk) = Some x)))"
proof (cases "distinct (map fst params) \<and> list_all (resolves gk fg) params")
  case False
  with updateFormFromUrl_Inr [of gk des fg params] show ?thesis
    by auto
next
  case True
  then have d: "distinct (map fst params)" and r: "list_all (resolves gk fg) params"
    by simp_all
  let ?patch = "patchOf gk des fg params"
  let ?fg' = "patchValue fg ?patch"
  let ?st = "\<lparr>formValue = ?patch, hasChanges = (?patch \<noteq> []), warned = failuresOf des params\<rparr>"
  have run: "updateFormFromUrl gk des fg params = Inr (?fg', ?st)"
    by (rule updateFormFromUrl_resolved [OF d r])
  have len1: "length ?patch = length (filter (\<lambda>(k, v). \<not> isl (des k v)) params)"
    using r
  proof (induction params)
    case Nil
    then show ?case by (simp add: patchOf_def)
  next
    case (Cons kv params)
    obtain k v where kv: "kv = (k, v)" by (cases kv)
    from Cons.prems kv obtain fk where "getFormControlKey gk fg k = Some fk"
      by (auto simp: resolves_def split: option.splits)
    with Cons kv show ?case
      by (subst patchOf_Cons) (auto simp: patchOf_def split: sum.splits)
  qed
  have len2: "length (failuresOf des params) = length (filter (\<lambda>(k, v). isl (des k v)) params)"
    by (induction params) (auto simp: failuresOf_def split: sum.splits)
  have fields: "case des k v of
                  Inl e \<Rightarrow> formGet ?fg' fk = formGet fg fk
                | Inr x \<Rightarrow> map_option cvalue (formGet ?fg' fk) = Some x"
    if kv: "(k, v) \<in> set params" and fk: "getFormControlKey gk fg k = Some fk" for k v fk
  proof (cases "des k v")
    case (Inl e)
    have "fk \<notin> fst ` set ?patch"
    proof
      assume "fk \<in> fst ` set ?patch"
      then obtain x where "(fk, x) \<in> set ?patch" by auto
      then obtain k' v' where kv': "(k', v') \<in> set params" and x: "des k' v' = Inr x"
        and fk': "getFormControlKey gk fg k' = Some fk"
        by (auto simp: patchOf_def List.map_filter_def split: sum.splits option.splits)
      from fk fk' have "k' = k"
        using getFormControlKey_Some by metis
      with d kv kv' have "v' = v"
        by (metis eq_key_imp_eq_value)
      with Inl x \<open>k' = k\<close> show False by simp
    qed
    with Inl show ?thesis by (simp add: formGet_patchValue_other)
  next
    case (Inr x)
    with kv fk have "(fk, x) \<in> set ?patch"
      by (force simp: patchOf_def List.map_filter_def)
    then have m: "map_of ?patch fk = Some x"
      using distinct_patchOf [OF d] by simp
    from r kv have "resolves gk fg (k, v)"
      by (auto simp: list_all_iff)
    with fk obtain c where c: "formGet fg fk = Some c"
      by (auto simp: resolves_def)
    then have "CHR ''.'' \<notin> set fk" and "map_of fg fk = Some c"
      by (auto simp: formGet_def split: if_splits)
    then have "formGet ?fg' fk = Some (c\<lparr>cvalue := x\<rparr>)"
      using m by (simp add: formGet_def map_of_patchValue)
    with Inr show ?thesis by simp
  qed
  show ?thesis
    using run len1 len2 fields by (intro exI [of _ ?fg'] exI [of _ ?st]) auto
qed

text \<open>
  The theorem on the Stats form of 15 January 2024 and a record with one malformed and
  two well-formed dates: the patch has the two fields, the one warning names
  \<^verbatim>\<open>dateFrom\<close>, whose control still holds 1 January.
\<close>

theorem C4_partial_tolerance_witness:
  "\<exists>fg' st.
     updateFormFromUrl Stats_getUrlParamKey Stats_deserialize_throwing
       (Stats_createFilters (LocalDate 2024 0 15 43200000))
       [(''dateFrom'', ''not-a-date''), (''dateTo'', ''2024-02-01''),
        (''compareDateFrom'', ''2024-01-01'')] = Inr (fg', st) \<and>
     formValue st = [(''dateTo'', DateV (LocalDate 2024 1 1 0)),
                     (''compareDateFrom'', DateV (LocalDate 2024 0 1 0))] \<and>
     warned st = [FailedToDeserialize ''dateFrom'' (Exn ''Invalid date'')] \<and>
     formGet fg' ''dateFrom'' = Some \<lparr>cvalue = DateV (LocalDate 2024 0 1 0), cenabled = True\<rparr> \<and>
     formGet fg' ''dateFrom'' =
       formGet (Stats_createFilters (LocalDate 2024 0 15 43200000)) ''dateFrom''"
proof -
  let ?fg = "Stats_createFilters (LocalDate 2024 0 15 43200000)"
  let ?params = "[(''dateFrom'', ''not-a-date''), (''dateTo'', ''2024-02-01''),
                  (''compareDateFrom'', ''2024-01-01'')]"
  note fg = Stats_form_15_January
  have d1: "Stats_deserializeUrlParam ''dateFrom'' ''not-a-date'' = DateV InvalidDate"
    by code_simp
  have d2: "Stats_deserializeUrlParam ''dateTo'' ''2024-02-01'' = DateV (LocalDate 2024 1 1 0)"
    by code_simp
  have d3: "Stats_deserializeUrlParam ''compareDateFrom'' ''2024-01-01'' =
      DateV (LocalDate 2024 0 1 0)"
    by code_simp
  have d: "distinct (map fst ?params)"
    by simp
  have r: "list_all (resolves Stats_getUrlParamKey ?fg) ?params"
    by (simp add: fg resolves_def getFormControlKey_def formGet_def Stats_getUrlParamKey_def)
  have p: "patchOf Stats_getUrlParamKey Stats_deserialize_throwing ?fg ?params =
      [(''dateTo'', DateV (LocalDate 2024 1 1 0)),
       (''compareDateFrom'', DateV (LocalDate 2024 0 1 0))]"
    by (simp add: fg patchOf_def Stats_deserialize_throwing_def d1 d2 d3 getFormControlKey_def
        Stats_getUrlParamKey_def)
  have f: "failuresOf Stats_deserialize_throwing ?params =
      [FailedToDeserialize ''dateFrom'' (Exn ''Invalid date'')]"
    by (simp add: failuresOf_def Stats_deserialize_throwing_def d1 d2 d3)
  have k: "getFormControlKey Stats_getUrlParamKey ?fg ''dateFrom'' = Some ''dateFrom''"
    by (simp add: fg getFormControlKey_def Stats_getUrlParamKey_def)
  have e: "Stats_deserialize_throwing ''dateFrom'' ''not-a-date'' = Inl (Exn ''Invalid date'')"
    by (simp add: Stats_deserialize_throwing_def d1)
  have g: "formGet ?fg ''dateFrom'' =
      Some \<lparr>cvalue = DateV (LocalDate 2024 0 1 0), cenabled = True\<rparr>"
    by (simp add: fg formGet_def)
  from C4_partial_tolerance [of Stats_getUrlParamKey Stats_deserialize_throwing ?fg ?params] d r
  obtain fg' st where
    run: "updateFormFromUrl Stats_getUrlParamKey Stats_deserialize_throwing ?fg ?params =
          Inr (fg', st)"
    and fv: "formValue st = patchOf Stats_getUrlParamKey Stats_deserialize_throwing ?fg ?params"
    and w: "warned st = failuresOf Stats_deserialize_throwing ?params"
    and fields: "\<forall>(k, v) \<in> set ?params. \<forall>fk.
           getFormControlKey Stats_getUrlParamKey ?fg k = Some fk \<longrightarrow>
             (case Stats_deserialize_throwing k v of
                Inl e \<Rightarrow> formGet fg' fk = formGet ?fg fk
              | Inr x \<Rightarrow> map_option cvalue (formGet fg' fk) = Some x)"
    by blast
  have "(''dateFrom'', ''not-a-date'') \<in> set ?params"
    by simp
  from bspec [OF fields this] k e
  have "formGet fg' ''dateFrom'' = formGet ?fg ''dateFrom''"
    by simp
  with run fv w p f g show ?thesis
    by (intro exI [of _ fg'] exI [of _ st]) simp
qed

text \<open>
  C10. An entry whose value is the empty string is passed over: the call gives the same
  form, the same patch and the same warnings as on the record without such entries, and
  it does not depend on what \<^verbatim>\<open>deserializeUrlParam\<close> would do on an empty string (any
  two implementations that agree on non-empty values give the same result). A record
  whose values are all empty leaves the form as it is, with an empty patch and no
  warning.
\<close>

theorem C10_empty_values_skipped:
  assumes "\<forall>k v. v \<noteq> [] \<longrightarrow> des k v = des' k v"
  shows "updateFormFromUrl gk des fg params =
           updateFormFromUrl gk des' fg (filter (\<lambda>(k, v). v \<noteq> []) params) \<and>
         (list_all (\<lambda>(k, v). v = []) params \<longrightarrow>
            updateFormFromUrl gk des fg params =
              Inr (fg, \<lparr>formValue = [], hasChanges = False, warned = []\<rparr>))"
proof -
  have a: "\<And>k v. v \<noteq> [] \<Longrightarrow> des k v = des' k v"
    using assms by simp
  have one: "updateFormFromUrl gk des fg params =
           updateFormFromUrl gk des' fg (filter (\<lambda>(k, v). v \<noteq> []) params)"
    by (simp add: updateFormFromUrl_def forEach_skip_empty forEach_entryStep_cong [OF a])
  have two: "updateFormFromUrl gk des fg params =
      Inr (fg, \<lparr>formValue = [], hasChanges = False, warned = []\<rparr>)"
    if "list_all (\<lambda>(k, v). v = []) params"
  proof -
    from that have "filter (\<lambda>(k, v). v \<noteq> []) params = []"
      by (induction params) auto
    with one show ?thesis by (simp add: updateFormFromUrl_def)
  qed
  from one two show ?thesis by blast
qed

text \<open>
  The theorem on the Stats form: two empty entries beside one date, and an implementation
  that would throw on the empty string.
\<close>

theorem C10_empty_values_skipped_witness:
  "updateFormFromUrl Stats_getUrlParamKey Stats_deserialize
     (Stats_createFilters (LocalDate 2024 0 15 43200000))
     [(''dateFrom'', ''''), (''dateTo'', ''2024-02-01''), (''unknown'', '''')] =
   updateFormFromUrl Stats_getUrlParamKey
     (\<lambda>k v. if v = [] then Inl (Exn ''empty'') else Stats_deserialize k v)
     (Stats_createFilters (LocalDate 2024 0 15 43200000))
     [(''dateTo'', ''2024-02-01'')]"
  using C10_empty_values_skipped [of Stats_deserialize
      "\<lambda>k v. if v = [] then Inl (Exn ''empty'') else Stats_deserialize k v"
      Stats_getUrlParamKey "Stats_createFilters (LocalDate 2024 0 15 43200000)"
      "[(''dateFrom'', ''''), (''dateTo'', ''2024-02-01''), (''unknown'', '''')]"]
  by simp

section \<open>Projection\<close>

text \<open>
  C6. For every form whose controls have distinct names and distinct URL keys (the
  registry invariant): the URL key of a control whose value is \<^verbatim>\<open>null\<close> or
  \<^verbatim>\<open>undefined\<close> is not a key of the projected record; setting one control to
  \<^verbatim>\<open>null\<close> or \<^verbatim>\<open>undefined\<close> and projecting again gives the first record without
  that control's key, every other entry as it was; and after each \<^verbatim>\<open>updateUrl()\<close> the
  query parameters of the location are that call's record alone, whatever they were
  before (\<^verbatim>\<open>queryParamsHandling: 'replace'\<close>), so that clearing a field and projecting
  again removes exactly that key from the wire.
\<close>

theorem C6_omission_and_replacement:
  assumes "distinct (map fst fg)" and "inj_on gk (fst ` set fg)"
  shows "(\<forall>(name, c) \<in> set fg.
            cvalue c = Null \<or> cvalue c = Undefined \<longrightarrow>
              gk name \<notin> fst ` set (updateUrl_queryParams gk fg)) \<and>
         (\<forall>name \<in> fst ` set fg. \<forall>x.
            x = Null \<or> x = Undefined \<longrightarrow>
              updateUrl_queryParams gk (setValue name x fg) =
                filter (\<lambda>(k, s). k \<noteq> gk name) (updateUrl_queryParams gk fg)) \<and>
         (\<forall>name \<in> fst ` set fg. \<forall>x w. \<forall>c :: 'd component.
            filterFormGroup c = fg \<and> (x = Null \<or> x = Undefined) \<longrightarrow>
              wireAfter (navigated (updateUrl gk c)) w = updateUrl_queryParams gk fg \<and>
              wireAfter
                (navigated
                  (updateUrl gk ((updateUrl gk c)\<lparr>filterFormGroup := setValue name x fg\<rparr>))) w =
                filter (\<lambda>(k, s). k \<noteq> gk name) (wireAfter (navigated (updateUrl gk c)) w))"
proof -
  note qp = updateUrl_queryParams_projection [OF assms]
  have absent: "gk name \<notin> fst ` set (updateUrl_queryParams gk fg)"
    if nc: "(name, c) \<in> set fg" and a: "cvalue c = Null \<or> cvalue c = Undefined" for name c
  proof
    assume "gk name \<in> fst ` set (updateUrl_queryParams gk fg)"
    then obtain key val where kv: "(key, val) \<in> set (groupValue fg)" and g: "gk key = gk name"
      and s: "serializeUrlParam (gk name) val \<noteq> None"
      using projection_keys [of "gk name" gk "groupValue fg"] by (auto simp: qp)
    from kv obtain c' where c': "(key, c') \<in> set fg" and v: "val = cvalue c'"
      using groupValue_entry by blast
    from c' nc g assms(2) have "key = name"
      by (force simp: inj_on_def)
    with c' nc assms(1) have "c' = c"
      by (metis eq_key_imp_eq_value)
    with v a s show False
      by (auto simp: serializeUrlParam_def)
  qed
  have clear: "updateUrl_queryParams gk (setValue name x fg) =
      filter (\<lambda>(k, s). k \<noteq> gk name) (updateUrl_queryParams gk fg)"
    if n: "name \<in> fst ` set fg" and a: "x = Null \<or> x = Undefined" for name x
  proof -
    have names: "map fst (setValue name x fg) = map fst fg"
      by (simp add: setValue_def map_fst_patchValue)
    then have "set (map fst (setValue name x fg)) = set (map fst fg)"
      by simp
    then have names': "fst ` set (setValue name x fg) = fst ` set fg"
      by simp
    have "updateUrl_queryParams gk (setValue name x fg) = projection gk (groupValue (setValue name x fg))"
      using assms by (intro updateUrl_queryParams_projection) (simp_all add: names names')
    also have "\<dots> = filter (\<lambda>(k, s). k \<noteq> gk name) (projection gk (groupValue fg))"
      unfolding groupValue_setValue
      using assms(2) n groupValue_names a
      by (intro projection_clear [where A = "fst ` set fg"]) (auto simp: serializeUrlParam_def)
    finally show ?thesis by (simp add: qp)
  qed
  show ?thesis
    using absent clear
    by (auto simp: wireAfter_updateUrl filterFormGroup_updateUrl simp del: split_paired_All)
qed

text \<open>
  The theorem on the Stats form of 15 January 2024: the disabled, empty
  \<^verbatim>\<open>compareDateFrom\<close> is not on the wire, and clearing \<^verbatim>\<open>dateTo\<close> leaves
  \<^verbatim>\<open>dateFrom\<close> alone.
\<close>

theorem C6_omission_and_replacement_witness:
  "updateUrl_queryParams Stats_getUrlParamKey (Stats_createFilters (LocalDate 2024 0 15 43200000)) =
     [(''dateFrom'', ''2024-01-01''), (''dateTo'', ''2024-01-15'')] \<and>
   ''compareDateFrom'' \<notin>
     fst ` set (updateUrl_queryParams Stats_getUrlParamKey
                 (Stats_createFilters (LocalDate 2024 0 15 43200000))) \<and>
   updateUrl_queryParams Stats_getUrlParamKey
     (setValue ''dateTo'' Null (Stats_createFilters (LocalDate 2024 0 15 43200000))) =
     [(''dateFrom'', ''2024-01-01'')]"
proof -
  let ?fg = "Stats_createFilters (LocalDate 2024 0 15 43200000)"
  have fg: "?fg =
     [(''dateFrom'', \<lparr>cvalue = DateV (LocalDate 2024 0 1 0), cenabled = True\<rparr>),
      (''dateTo'', \<lparr>cvalue = DateV (LocalDate 2024 0 15 43200000), cenabled = True\<rparr>),
      (''compareDateFrom'', \<lparr>cvalue = Null, cenabled = False\<rparr>),
      (''compareDateTo'', \<lparr>cvalue = Null, cenabled = False\<rparr>)]"
    by code_simp
  have d: "distinct (map fst ?fg)"
    by (simp add: fg)
  have i: "inj_on Stats_getUrlParamKey (fst ` set ?fg)"
    by (simp add: inj_on_def Stats_getUrlParamKey_def)
  have qp: "updateUrl_queryParams Stats_getUrlParamKey ?fg =
     [(''dateFrom'', ''2024-01-01''), (''dateTo'', ''2024-01-15'')]"
    by code_simp
  note c6 = C6_omission_and_replacement [OF d i]
  have a: "(''compareDateFrom'', \<lparr>cvalue = Null, cenabled = False\<rparr>) \<in> set ?fg"
    by (simp add: fg)
  from bspec [OF conjunct1 [OF c6] a]
  have absent: "Stats_getUrlParamKey ''compareDateFrom'' \<notin>
      fst ` set (updateUrl_queryParams Stats_getUrlParamKey ?fg)"
    by simp
  have n: "''dateTo'' \<in> fst ` set ?fg"
    by (simp add: fg)
  from bspec [OF conjunct1 [OF conjunct2 [OF c6]] n]
  have "updateUrl_queryParams Stats_getUrlParamKey (setValue ''dateTo'' Null ?fg) =
      filter (\<lambda>(k, s). k \<noteq> Stats_getUrlParamKey ''dateTo'')
        (updateUrl_queryParams Stats_getUrlParamKey ?fg)"
    by simp
  then have clear: "updateUrl_queryParams Stats_getUrlParamKey (setValue ''dateTo'' Null ?fg) =
      [(''dateFrom'', ''2024-01-01'')]"
    by (simp add: qp Stats_getUrlParamKey_def)
  from qp absent clear show ?thesis
    by (simp add: Stats_getUrlParamKey_def)
qed

section \<open>The echo of a write\<close>

text \<open>
  C1, amended. The component has no echo suppressor and writes carry no tag: the record
  that \<^verbatim>\<open>updateUrl\<close> wrote is reconciled like any other when it comes back. For every
  form of date filters with distinct names (as that of \<^verbatim>\<open>StatsComponent\<close>: dates of a
  year from 100 on, or nothing), \<^verbatim>\<open>updateFormFromUrl\<close> on the record \<^verbatim>\<open>updateUrl\<close>
  built from the form prints no warning and patches every projected date with the local
  midnight of its own day: the form is unchanged under date-only equality, absent and
  unprojected controls are untouched, and the form is unchanged altogether when its dates
  carry no time of day.
\<close>

theorem C1_echo_keeps_the_day:
  assumes "distinct (map fst fg)" and "list_all dateControl fg"
  shows "\<exists>fg' st.
           updateFormFromUrl Stats_getUrlParamKey Stats_deserialize fg
             (updateUrl_queryParams Stats_getUrlParamKey fg) = Inr (fg', st) \<and>
           warned st = [] \<and>
           fg' = map (\<lambda>(name, c).
                        (name, if cenabled c \<or> list_all (\<lambda>(name, c). \<not> cenabled c) fg
                               then c\<lparr>cvalue := atMidnight (cvalue c)\<rparr> else c)) fg \<and>
           (list_all (\<lambda>(name, c). atMidnight (cvalue c) = cvalue c) fg \<longrightarrow> fg' = fg)"
proof -
  let ?fg' = "map (\<lambda>(name, c).
                        (name, if cenabled c \<or> list_all (\<lambda>(name, c). \<not> cenabled c) fg
                               then c\<lparr>cvalue := atMidnight (cvalue c)\<rparr> else c)) fg"
  have "?fg' = fg" if "list_all (\<lambda>(name, c). atMidnight (cvalue c) = cvalue c) fg"
    using that by (intro map_idI) (auto simp: list_all_iff)
  with echo_on_date_filters [OF assms] show ?thesis
    by simp
qed

text \<open>
  The theorem on the form \<^verbatim>\<open>createFilters()\<close> builds on 15 January 2024 at noon:
  \<^verbatim>\<open>dateTo\<close> comes back as 15 January at midnight.
\<close>

theorem C1_echo_keeps_the_day_witness:
  "\<exists>st.
     updateFormFromUrl Stats_getUrlParamKey Stats_deserialize
       (Stats_createFilters (LocalDate 2024 0 15 43200000))
       (updateUrl_queryParams Stats_getUrlParamKey
         (Stats_createFilters (LocalDate 2024 0 15 43200000))) =
       Inr ([(''dateFrom'', \<lparr>cvalue = DateV (LocalDate 2024 0 1 0), cenabled = True\<rparr>),
             (''dateTo'', \<lparr>cvalue = DateV (LocalDate 2024 0 15 0), cenabled = True\<rparr>),
             (''compareDateFrom'', \<lparr>cvalue = Null, cenabled = False\<rparr>),
             (''compareDateTo'', \<lparr>cvalue = Null, cenabled = False\<rparr>)], st) \<and>
     warned st = []"
proof -
  let ?fg = "Stats_createFilters (LocalDate 2024 0 15 43200000)"
  have fg: "?fg =
     [(''dateFrom'', \<lparr>cvalue = DateV (LocalDate 2024 0 1 0), cenabled = True\<rparr>),
      (''dateTo'', \<lparr>cvalue = DateV (LocalDate 2024 0 15 43200000), cenabled = True\<rparr>),
      (''compareDateFrom'', \<lparr>cvalue = Null, cenabled = False\<rparr>),
      (''compareDateTo'', \<lparr>cvalue = Null, cenabled = False\<rparr>)]"
    by code_simp
  have d: "distinct (map fst ?fg)"
    by (simp add: fg)
  have dc: "list_all dateControl ?fg"
    by (simp add: fg dateControl_def validDate_def daysInMonth_def inTimeRange_def)
  from C1_echo_keeps_the_day [OF d dc] show ?thesis
    by (simp add: fg atMidnight_def)
qed

text \<open>
  C1 as stated has the form unchanged. A form whose \<^verbatim>\<open>dateTo\<close> is 31 January 2024 at
  12:34:56 is written as \<^verbatim>\<open>dateTo=2024-01-31\<close>, and the echo of that write sets
  \<^verbatim>\<open>dateTo\<close> to 31 January at midnight: one state mutation.
\<close>

theorem C1_echo_keeps_the_day_counterexample:
  "\<exists>st.
     updateFormFromUrl Stats_getUrlParamKey Stats_deserialize
       [(''dateFrom'', \<lparr>cvalue = DateV (LocalDate 2024 0 1 0), cenabled = True\<rparr>),
        (''dateTo'', \<lparr>cvalue = DateV (LocalDate 2024 0 31 45296000), cenabled = True\<rparr>)]
       (updateUrl_queryParams Stats_getUrlParamKey
         [(''dateFrom'', \<lparr>cvalue = DateV (LocalDate 2024 0 1 0), cenabled = True\<rparr>),
          (''dateTo'', \<lparr>cvalue = DateV (LocalDate 2024 0 31 45296000), cenabled = True\<rparr>)]) =
     Inr ([(''dateFrom'', \<lparr>cvalue = DateV (LocalDate 2024 0 1 0), cenabled = True\<rparr>),
           (''dateTo'', \<lparr>cvalue = DateV (LocalDate 2024 0 31 0), cenabled = True\<rparr>)], st) \<and>
     [(''dateFrom'', \<lparr>cvalue = DateV (LocalDate 2024 0 1 0), cenabled = True\<rparr>),
      (''dateTo'', \<lparr>cvalue = DateV (LocalDate 2024 0 31 0), cenabled = True\<rparr>)] \<noteq>
     [(''dateFrom'', \<lparr>cvalue = DateV (LocalDate 2024 0 1 0), cenabled = True\<rparr>),
      (''dateTo'', \<lparr>cvalue = DateV (LocalDate 2024 0 31 45296000), cenabled = True\<rparr>)]"
proof -
  let ?fg = "[(''dateFrom'', \<lparr>cvalue = DateV (LocalDate 2024 0 1 0), cenabled = True\<rparr>),
              (''dateTo'', \<lparr>cvalue = DateV (LocalDate 2024 0 31 45296000), cenabled = True\<rparr>)]"
  have d: "distinct (map fst ?fg)"
    by simp
  have dc: "list_all dateControl ?fg"
    by (simp add: dateControl_def validDate_def daysInMonth_def inTimeRange_def)
  from echo_on_date_filters [OF d dc] show ?thesis
    by (simp add: atMidnight_def)
qed

section \<open>The data request pipeline\<close>




section \<open>After the quiet period\<close>

text \<open>
  C7. A state change at time \<open>now\<close> sets the debounce timer to \<open>now + 300\<close>; before
  that time nothing happens; when it is reached, \<^verbatim>\<open>updateUrl()\<close> writes the projection of
  the form to the wire whether or not the form is valid, and a data request is issued if
  and only if the form is valid (and \<^verbatim>\<open>loadData\<close> runs on it if the pipeline is still
  subscribed).
\<close>

theorem C7_wire_always_fetch_iff_valid:
  "let c1 = stateChange gk ld valid c (now, mutate);
       F = filterFormGroup c1;
       c2 = elapse gk ld valid (now + 300) c1
   in F = mutate (filterFormGroup (elapse gk ld valid now c)) \<and>
      (\<forall>t. t < now + 300 \<longrightarrow> elapse gk ld valid t c1 = c1) \<and>
      navigated c2 =
        navigated c1 @ [\<lparr>queryParams = updateUrl_queryParams gk F,
                         handling = Replace, replaceUrl = True\<rparr>] \<and>
      requested c2 = requested c1 @ (if valid F then [groupValue F] else []) \<and>
      loaded c2 = loaded c1 @ (if valid F \<and> fetchSubscribed c1 then [groupValue F] else []) \<and>
      (length (requested c2) = Suc (length (requested c1)) \<longleftrightarrow> valid F)"
proof -
  let ?c1 = "stateChange gk ld valid c (now, mutate)"
  have due: "debounceDue ?c1 = Some (now + 300)"
    by (simp add: stateChange_def valueChanges_next_def Let_def)
  have form: "filterFormGroup ?c1 = mutate (filterFormGroup (elapse gk ld valid now c))"
    by (simp add: stateChange_def valueChanges_next_def Let_def)
  have early: "elapse gk ld valid t ?c1 = ?c1" if "t < now + 300" for t
    using due that by (rule elapse_early)
  have fire: "elapse gk ld valid (now + 300) ?c1 =
      valueChanges_subscriber gk ld valid (?c1\<lparr>debounceDue := None\<rparr>)"
    using due by (rule elapse_due) simp
  show ?thesis
    unfolding Let_def fire
    using early form by (simp add: valueChanges_subscriber_effect)
qed

text \<open>
  The theorem on the Stats component when \<^verbatim>\<open>dateFrom\<close>, a required field, is cleared:
  the form is invalid, the wire is written without \<^verbatim>\<open>dateFrom\<close>, no request is made.
\<close>

theorem C7_wire_always_fetch_iff_valid_witness:
  "(let c1 = stateChange Stats_getUrlParamKey Stats_loadData Stats_valid
               (Stats_initial (LocalDate 2024 0 15 43200000)) (1000, setValue ''dateFrom'' Null);
        c2 = elapse Stats_getUrlParamKey Stats_loadData Stats_valid 1300 c1
    in \<not> Stats_valid (filterFormGroup c1) \<and>
       elapse Stats_getUrlParamKey Stats_loadData Stats_valid 1299 c1 = c1 \<and>
       navigated c1 = [] \<and>
       navigated c2 = [\<lparr>queryParams = [(''dateTo'', ''2024-01-15'')],
                        handling = Replace, replaceUrl = True\<rparr>] \<and>
       requested c2 = requested c1 \<and> loaded c2 = loaded c1)"
proof -
  let ?c = "Stats_initial (LocalDate 2024 0 15 43200000)"
  let ?c1 = "stateChange Stats_getUrlParamKey Stats_loadData Stats_valid ?c (1000, setValue ''dateFrom'' Null)"
  let ?F = "[(''dateFrom'', \<lparr>cvalue = Null, cenabled = True\<rparr>),
      (''dateTo'', \<lparr>cvalue = DateV (LocalDate 2024 0 15 43200000), cenabled = True\<rparr>),
      (''compareDateFrom'', \<lparr>cvalue = Null, cenabled = False\<rparr>),
      (''compareDateTo'', \<lparr>cvalue = Null, cenabled = False\<rparr>)]"
  have F: "filterFormGroup ?c1 = ?F"
    by (simp add: stateChange_def elapse_def valueChanges_next_def Stats_initial_def
        Stats_form_15_January setValue_def patchValue_def)
  have n: "navigated ?c1 = []"
    by (simp add: stateChange_def elapse_def valueChanges_next_def Stats_initial_def)
  have v: "\<not> Stats_valid ?F"
    by (simp add: Stats_valid_def required_def)
  have qp: "updateUrl_queryParams Stats_getUrlParamKey ?F = [(''dateTo'', ''2024-01-15'')]"
    by code_simp
  from C7_wire_always_fetch_iff_valid [of Stats_getUrlParamKey Stats_loadData Stats_valid ?c
      1000 "setValue ''dateFrom'' Null"]
  have early: "\<forall>t. t < 1000 + 300 \<longrightarrow>
          elapse Stats_getUrlParamKey Stats_loadData Stats_valid t ?c1 = ?c1"
    and nav: "navigated (elapse Stats_getUrlParamKey Stats_loadData Stats_valid (1000 + 300) ?c1) =
          navigated ?c1 @
            [\<lparr>queryParams = updateUrl_queryParams Stats_getUrlParamKey (filterFormGroup ?c1),
              handling = Replace, replaceUrl = True\<rparr>]"
    and req: "requested (elapse Stats_getUrlParamKey Stats_loadData Stats_valid (1000 + 300) ?c1) =
          requested ?c1 @
            (if Stats_valid (filterFormGroup ?c1) then [groupValue (filterFormGroup ?c1)] else [])"
    and ld: "loaded (elapse Stats_getUrlParamKey Stats_loadData Stats_valid (1000 + 300) ?c1) =
          loaded ?c1 @
            (if Stats_valid (filterFormGroup ?c1) \<and> fetchSubscribed ?c1
             then [groupValue (filterFormGroup ?c1)] else [])"
    unfolding Let_def by blast+
  from early have e: "elapse Stats_getUrlParamKey Stats_loadData Stats_valid 1299 ?c1 = ?c1"
    by simp
  from nav req ld e show ?thesis
    unfolding Let_def F by (simp add: n v qp)
qed

section \<open>Wire writes\<close>

text \<open>
  C8, amended. Every call of \<^verbatim>\<open>updateUrl()\<close> emits exactly one wire write: one call of
  \<^verbatim>\<open>router.navigate\<close> with the projected record, \<^verbatim>\<open>queryParamsHandling: 'replace'\<close>
  and \<^verbatim>\<open>replaceUrl: true\<close>, and it changes nothing else in the component. The write
  carries no SyncTag, and there is no counter: the write is determined by the form alone,
  so \<open>k\<close> calls in a row emit the same write \<open>k\<close> times.
\<close>

theorem C8_one_write_per_projection:
  "navigated (updateUrl gk c) =
     navigated c @ [\<lparr>queryParams = updateUrl_queryParams gk (filterFormGroup c),
                     handling = Replace, replaceUrl = True\<rparr>] \<and>
   updateUrl gk c = c\<lparr>navigated := navigated (updateUrl gk c)\<rparr> \<and>
   length (navigated ((updateUrl gk ^^ k) c)) = length (navigated c) + k \<and>
   navigated ((updateUrl gk ^^ k) c) =
     navigated c @ replicate k \<lparr>queryParams = updateUrl_queryParams gk (filterFormGroup c),
                                 handling = Replace, replaceUrl = True\<rparr>"
  using updateUrl_repeated [where gk = gk and k = k and c = c] by (simp add: updateUrl_def)

text \<open>
  C8 as stated has every write carry a fresh tag, strictly greater than the one before.
  Two calls of \<^verbatim>\<open>updateUrl()\<close> on the Stats component emit two writes that no tag
  read off the write can tell apart.
\<close>

theorem C8_one_write_per_projection_counterexample:
  "\<exists>w1 w2.
     navigated (updateUrl Stats_getUrlParamKey
                 (updateUrl Stats_getUrlParamKey (Stats_initial (LocalDate 2024 0 15 43200000)))) =
       [w1, w2] \<and>
     \<not> (\<exists>tag :: navigation \<Rightarrow> nat. tag w1 < tag w2)"
  by (simp add: updateUrl_def Stats_initial_def)

section \<open>Debounce\<close>

text \<open>
  C9. From an idle component, a sequence of one or more state-mutation events of which
  each comes before the 300 ms started by the one before it have passed: no wire write
  and no data request happens while the events arrive (after any number of them); when
  the quiet period after the last event has passed, exactly one wire write has been
  made, the projection of the form as the last event left it, and one data request
  carrying that form's value if it is valid, none if it is not.
\<close>

theorem C9_debounce_collapse:
  assumes "debounceDue c = None" and "withinWindow start evs"
  shows "let events = (start, mutate) # evs;
             c1 = foldl (stateChange gk ld valid) c events;
             F = finalForm (filterFormGroup c) events;
             c2 = settle gk ld valid c1
         in (\<forall>k. navigated (foldl (stateChange gk ld valid) c (take k events)) = navigated c \<and>
                 requested (foldl (stateChange gk ld valid) c (take k events)) = requested c \<and>
                 loaded (foldl (stateChange gk ld valid) c (take k events)) = loaded c) \<and>
            filterFormGroup c1 = F \<and>
            debounceDue c1 = Some (lastTime start evs + 300) \<and>
            navigated c2 =
              navigated c @ [\<lparr>queryParams = updateUrl_queryParams gk F,
                              handling = Replace, replaceUrl = True\<rparr>] \<and>
            requested c2 = requested c @ (if valid F then [groupValue F] else []) \<and>
            loaded c2 = loaded c @ (if valid F \<and> fetchSubscribed c then [groupValue F] else []) \<and>
            debounceDue c2 = None"
proof -
  let ?events = "(start, mutate) # evs"
  let ?run = "\<lambda>es. foldl (stateChange gk ld valid) c es"
  let ?F = "finalForm (filterFormGroup c) ?events"
  have c1: "?run ?events = c\<lparr>filterFormGroup := ?F, debounceDue := Some (lastTime start evs + 300)\<rparr>"
    by (rule burst_from_idle [OF assms])
  have quiet: "navigated (?run (take k ?events)) = navigated c \<and>
               requested (?run (take k ?events)) = requested c \<and>
               loaded (?run (take k ?events)) = loaded c" for k
  proof (cases k)
    case 0
    then show ?thesis by simp
  next
    case (Suc j)
    have "withinWindow start (take j evs)"
      using assms(2) by (rule withinWindow_take)
    from burst_from_idle [OF assms(1) this, where gk = gk and ld = ld and valid = valid and mutate = mutate]
      Suc show ?thesis
      by simp
  qed
  have due: "debounceDue (?run ?events) = Some (lastTime start evs + 300)"
    by (subst c1) simp
  have c2: "settle gk ld valid (?run ?events) =
      valueChanges_subscriber gk ld valid ((?run ?events)\<lparr>debounceDue := None\<rparr>)"
    by (rule settle_pending [OF due])
  show ?thesis
    unfolding Let_def c2 valueChanges_subscriber_effect
    unfolding c1
    using quiet by simp
qed

text \<open>
  The theorem on the Stats component for three events within 350 ms: one write and one
  request, both of the last state.
\<close>

theorem C9_debounce_collapse_witness:
  "(let events = [(1000, setValue ''dateFrom'' Null),
                  (1100, setValue ''dateFrom'' (DateV (LocalDate 2024 0 2 0))),
                  (1350, setValue ''dateTo'' (DateV (LocalDate 2024 0 20 0)))];
        c = Stats_initial (LocalDate 2024 0 15 43200000);
        c1 = foldl (stateChange Stats_getUrlParamKey Stats_loadData Stats_valid) c events;
        c2 = settle Stats_getUrlParamKey Stats_loadData Stats_valid c1
    in navigated c1 = [] \<and> debounceDue c1 = Some 1650 \<and>
       navigated c2 = [\<lparr>queryParams = [(''dateFrom'', ''2024-01-02''), (''dateTo'', ''2024-01-20'')],
                        handling = Replace, replaceUrl = True\<rparr>] \<and>
       requested c2 = requested c @ [[(''dateFrom'', DateV (LocalDate 2024 0 2 0)),
                                      (''dateTo'', DateV (LocalDate 2024 0 20 0))]] \<and>
       loaded c2 = loaded c @ [[(''dateFrom'', DateV (LocalDate 2024 0 2 0)),
                                (''dateTo'', DateV (LocalDate 2024 0 20 0))]])"
proof -
  let ?c = "Stats_initial (LocalDate 2024 0 15 43200000)"
  let ?evs = "[(1100, setValue ''dateFrom'' (DateV (LocalDate 2024 0 2 0))),
               (1350, setValue ''dateTo'' (DateV (LocalDate 2024 0 20 0)))]"
  let ?F = "[(''dateFrom'', \<lparr>cvalue = DateV (LocalDate 2024 0 2 0), cenabled = True\<rparr>),
      (''dateTo'', \<lparr>cvalue = DateV (LocalDate 2024 0 20 0), cenabled = True\<rparr>),
      (''compareDateFrom'', \<lparr>cvalue = Null, cenabled = False\<rparr>),
      (''compareDateTo'', \<lparr>cvalue = Null, cenabled = False\<rparr>)]"
  have idle: "debounceDue ?c = None"
    by (simp add: Stats_initial_def)
  have w: "withinWindow 1000 ?evs"
    by simp
  have F: "finalForm (filterFormGroup ?c) ((1000, setValue ''dateFrom'' Null) # ?evs) = ?F"
    by (simp add: finalForm_def Stats_initial_def Stats_form_15_January setValue_def patchValue_def)
  have v: "Stats_valid ?F"
    by (simp add: Stats_valid_def required_def)
  have g: "groupValue ?F = [(''dateFrom'', DateV (LocalDate 2024 0 2 0)),
                            (''dateTo'', DateV (LocalDate 2024 0 20 0))]"
    by (simp add: groupValue_def)
  have qp: "updateUrl_queryParams Stats_getUrlParamKey ?F =
      [(''dateFrom'', ''2024-01-02''), (''dateTo'', ''2024-01-20'')]"
    by code_simp
  have s: "fetchSubscribed ?c" "navigated ?c = []"
    by (simp_all add: Stats_initial_def)
  from C9_debounce_collapse [OF idle w, where gk = Stats_getUrlParamKey and ld = Stats_loadData
      and valid = Stats_valid and mutate = "setValue ''dateFrom'' Null"]
  have "navigated (foldl (stateChange Stats_getUrlParamKey Stats_loadData Stats_valid) ?c
                    (take 3 ((1000, setValue ''dateFrom'' Null) # ?evs))) = navigated ?c"
    and "debounceDue (foldl (stateChange Stats_getUrlParamKey Stats_loadData Stats_valid) ?c
                    ((1000, setValue ''dateFrom'' Null) # ?evs)) = Some (lastTime 1000 ?evs + 300)"
    and "navigated (settle Stats_getUrlParamKey Stats_loadData Stats_valid
           (foldl (stateChange Stats_getUrlParamKey Stats_loadData Stats_valid) ?c
                    ((1000, setValue ''dateFrom'' Null) # ?evs))) =
         navigated ?c @ [\<lparr>queryParams = updateUrl_queryParams Stats_getUrlParamKey ?F,
                          handling = Replace, replaceUrl = True\<rparr>]"
    and "requested (settle Stats_getUrlParamKey Stats_loadData Stats_valid
           (foldl (stateChange Stats_getUrlParamKey Stats_loadData Stats_valid) ?c
                    ((1000, setValue ''dateFrom'' Null) # ?evs))) =
         requested ?c @ (if Stats_valid ?F then [groupValue ?F] else [])"
    and "loaded (settle Stats_getUrlParamKey Stats_loadData Stats_valid
           (foldl (stateChange Stats_getUrlParamKey Stats_loadData Stats_valid) ?c
                    ((1000, setValue ''dateFrom'' Null) # ?evs))) =
         loaded ?c @ (if Stats_valid ?F \<and> fetchSubscribed ?c then [groupValue ?F] else [])"
    unfolding Let_def F by blast+
  then show ?thesis
    unfolding Let_def by (simp add: v g qp s)
qed

end
